theory Spec2Isabelle
  imports Main
begin

section \<open>Tokens, the lexer and the grammar driver (syntax.cpp)\<close>

text \<open>
  The terminals that \<open>ingest\<close> and the desugarer name. Every other terminal of the
  generated grammar (parser.h) is \<open>TOKEN_OTHER k\<close>.
\<close>

datatype token_id =
    TOKEN_WS | TOKEN_COMMENT | TOKEN_NL | TOKEN_EOF
  | TOKEN_INDENT | TOKEN_DEDENT
  | TOKEN_STR_CLOSE | TOKEN_REG_CLOSE
  | TOKEN_KW_DEF | TOKEN_KW_TYPE | TOKEN_KW_TOPIC
  | TOKEN_KW_UNARY | TOKEN_KW_BINARY
  | TOKEN_OTHER nat

text \<open>
  A \<open>Token\<close> is what a lexer entry point returns: the terminal, the byte offset one past
  the token, and whether the bytes were legal. A \<open>TokenInfo\<close> is the byte range handed
  to the parser. Pointers into the file are byte offsets from its start.
\<close>

record Token =
  t_id :: token_id
  t_end :: nat
  t_ok :: bool

record TokenInfo =
  ti_start :: nat
  ti_end :: nat

text \<open>
  The lexer (lexer.h) and the generated parser (parser.h) are not part of the sources at
  hand: the three lexer entry points and the two parser operations are parameters of the
  model. \<open>'p\<close> is the parser's state, \<open>ParseAlloc\<close> its initial value.
\<close>

record 'p grammar =
  lex_wake :: "string \<Rightarrow> nat \<Rightarrow> Token"
  lex_dstr :: "string \<Rightarrow> nat \<Rightarrow> Token"
  lex_rstr :: "string \<Rightarrow> nat \<Rightarrow> Token"
  ParseAlloc :: 'p
  ParseShifts :: "'p \<Rightarrow> token_id \<Rightarrow> bool"
  Parse :: "'p \<Rightarrow> token_id \<Rightarrow> TokenInfo \<Rightarrow> 'p"

text \<open>The file is NUL-terminated: the byte read at its end is 0.\<close>

definition byte_at :: "string \<Rightarrow> nat \<Rightarrow> char" where
  "byte_at fc p = (if p < length fc then fc ! p else CHR 0x00)"

datatype fsm_state = STATE_IDLE | STATE_NL | STATE_NL_WS

datatype ingest_error =
    StackUnderflow    \<comment> \<open>\<open>indent_stack.back()\<close> on an empty vector\<close>
  | BadRange          \<comment> \<open>\<open>newdent\<close> built from a range of negative length, or that reaches beyond the file\<close>
  | OutOfFuel         \<comment> \<open>the loop did not reach \<open>TOKEN_EOF\<close> within the given number of iterations\<close>

text \<open>
  The local variables of \<open>ingest\<close>. \<open>indent_stack\<close> is kept with its back at the head
  of the list. \<open>fed\<close> records the calls of \<open>Parse\<close> in order, \<open>newlines\<close> the calls of
  \<open>fcontent->newline\<close>, \<open>illegal\<close> the tokens reported as illegal.
\<close>

record 'p ingest_state =
  parser :: 'p
  fed :: "(token_id \<times> TokenInfo) list"
  indent_stack :: "nat list"
  indent :: string
  state :: fsm_state
  token :: Token
  nl :: Token
  ws :: Token
  tinfo :: TokenInfo
  tindent :: TokenInfo
  newlines :: "nat list"
  illegal :: "(TokenInfo \<times> token_id) list"

definition feed :: "'p grammar \<Rightarrow> token_id \<Rightarrow> TokenInfo \<Rightarrow> 'p ingest_state \<Rightarrow> 'p ingest_state" where
  "feed g i ti st = st\<lparr>parser := Parse g (parser st) i ti, fed := fed st @ [(i, ti)]\<rparr>"

text \<open>Lines 53-66: the choice of the lexer entry point.\<close>

definition next_token :: "'p grammar \<Rightarrow> string \<Rightarrow> 'p \<Rightarrow> nat \<Rightarrow> Token" where
  "next_token g fc p pos =
     (if byte_at fc pos = CHR ''}'' then
        (if ParseShifts g p TOKEN_STR_CLOSE then lex_dstr g fc pos
         else if ParseShifts g p TOKEN_REG_CLOSE then lex_rstr g fc pos
         else lex_wake g fc pos)
      else lex_wake g fc pos)"

text \<open>
  Lines 49-75: the token just lexed becomes \<open>token\<close>, \<open>tinfo\<close> is its byte range
  (from the end of the previous token), and an illegal token is reported.
\<close>

definition got_token :: "Token \<Rightarrow> 'p ingest_state \<Rightarrow> 'p ingest_state" where
  "got_token tok st =
     (let ti = \<lparr>ti_start = t_end (token st), ti_end = t_end tok\<rparr>;
          st1 = st\<lparr>token := tok, tinfo := ti\<rparr>
      in if \<not> t_ok tok then st1\<lparr>illegal := illegal st1 @ [(ti, t_id tok)]\<rparr> else st1)"

definition lex_step :: "'p grammar \<Rightarrow> string \<Rightarrow> 'p ingest_state \<Rightarrow> 'p ingest_state" where
  "lex_step g fc st = got_token (next_token g fc (parser st) (t_end (token st))) st"

text \<open>
  Lines 128-133: pop indent scopes until \<open>indent\<close> is a prefix of \<open>newdent\<close>.
  \<open>newdent.compare(0, indent.size(), indent)\<close> compares the first \<open>indent.size()\<close>
  bytes of \<open>newdent\<close> (all of it when it is shorter) with \<open>indent\<close>;
  \<open>resize\<close> truncates, or pads with NUL bytes.
\<close>

definition resize :: "nat \<Rightarrow> string \<Rightarrow> string" where
  "resize n s = take n s @ replicate (n - length s) (CHR 0x00)"

function dedent_loop :: "'p grammar \<Rightarrow> string \<Rightarrow> 'p ingest_state \<Rightarrow> ingest_error + 'p ingest_state" where
  "dedent_loop g newdent st =
     (if take (length (indent st)) newdent \<noteq> indent st then
        (case indent_stack st of
           [] \<Rightarrow> Inl StackUnderflow
         | back # rest \<Rightarrow>
             dedent_loop g newdent
               ((feed g TOKEN_DEDENT (tindent st) st)
                  \<lparr>indent := resize back (indent st), indent_stack := rest\<rparr>))
      else Inr st)"
  by pat_completeness auto
termination
  by (relation "measure (\<lambda>(g, newdent, st). length (indent_stack st))") (auto simp: feed_def)

declare dedent_loop.simps [simp del]

text \<open>Lines 123-150: the default case, a change of indentation.\<close>

definition reconcile :: "'p grammar \<Rightarrow> string \<Rightarrow> 'p ingest_state \<Rightarrow> ingest_error + 'p ingest_state" where
  "reconcile g fc st0 =
     (let st = st0\<lparr>state := STATE_IDLE\<rparr> in
      if t_end (ws st) < t_end (nl st) \<or> (t_end (nl st) < t_end (ws st) \<and> length fc < t_end (ws st))
      then Inl BadRange
      else
        let newdent = take (t_end (ws st) - t_end (nl st)) (drop (t_end (nl st)) fc) in
        case dedent_loop g newdent st of
          Inl e \<Rightarrow> Inl e
        | Inr st1 \<Rightarrow>
            let st2 = (if length newdent > length (indent st1)
                       then (feed g TOKEN_INDENT (tindent st1) st1)
                              \<lparr>indent_stack := length (indent st1) # indent_stack st1,
                               indent := newdent\<rparr>
                       else st1);
                st3 = (if ParseShifts g (parser st2) TOKEN_NL
                       then feed g TOKEN_NL (tindent st2) st2 else st2)
            in Inr st3)"

text \<open>
  Lines 81-153: the state machine. \<open>Continue\<close> is the \<open>continue\<close> of the loop (nothing
  is fed to the parser), \<open>Break\<close> leaves the switch for the normal handling of the token.
\<close>

datatype flow = Continue | Break

definition case_nl_ws :: "'p grammar \<Rightarrow> string \<Rightarrow> 'p ingest_state \<Rightarrow> ingest_error + flow \<times> 'p ingest_state" where
  "case_nl_ws g fc st =
     (if t_id (token st) = TOKEN_NL then
        Inr (Continue, st\<lparr>newlines := newlines st @ [t_end (token st)],
                           nl := token st, state := STATE_NL\<rparr>)
      else if t_id (token st) = TOKEN_COMMENT then
        Inr (Continue, st\<lparr>state := STATE_IDLE\<rparr>)
      else
        (case reconcile g fc st of Inl e \<Rightarrow> Inl e | Inr st' \<Rightarrow> Inr (Break, st')))"

definition offside :: "'p grammar \<Rightarrow> string \<Rightarrow> 'p ingest_state \<Rightarrow> ingest_error + flow \<times> 'p ingest_state" where
  "offside g fc st =
     (case state st of
        STATE_IDLE \<Rightarrow>
          if t_id (token st) = TOKEN_WS \<or> t_id (token st) = TOKEN_COMMENT then Inr (Continue, st)
          else if t_id (token st) = TOKEN_NL then
            Inr (Continue, st\<lparr>newlines := newlines st @ [t_end (token st)],
                               nl := token st, tindent := tinfo st, state := STATE_NL\<rparr>)
          else Inr (Break, st)
      | STATE_NL \<Rightarrow>
          if t_id (token st) = TOKEN_WS then
            Inr (Continue, st\<lparr>ws := token st, state := STATE_NL_WS\<rparr>)
          else case_nl_ws g fc (st\<lparr>ws := nl st\<rparr>)
      | STATE_NL_WS \<Rightarrow> case_nl_ws g fc st)"

text \<open>Lines 155-163: at \<open>TOKEN_EOF\<close>, one \<open>TOKEN_DEDENT\<close> per entry left on the stack.\<close>

function flush_dedents :: "'p grammar \<Rightarrow> 'p ingest_state \<Rightarrow> 'p ingest_state" where
  "flush_dedents g st =
     (if indent_stack st \<noteq> [] then
        flush_dedents g ((feed g TOKEN_DEDENT (tinfo st) st)\<lparr>indent_stack := tl (indent_stack st)\<rparr>)
      else st)"
  by pat_completeness auto
termination
  by (relation "measure (\<lambda>(g, st). length (indent_stack st))") (auto simp: feed_def)

declare flush_dedents.simps [simp del]

definition at_eof :: "'p grammar \<Rightarrow> 'p ingest_state \<Rightarrow> 'p ingest_state" where
  "at_eof g st =
     (if t_id (token st) = TOKEN_EOF then
        (let st1 = flush_dedents g st in
         if ParseShifts g (parser st1) TOKEN_NL then feed g TOKEN_NL (tinfo st1) st1 else st1)
      else st)"

text \<open>Lines 81-165: everything the loop body does with the token just lexed.\<close>

definition on_token :: "'p grammar \<Rightarrow> string \<Rightarrow> 'p ingest_state \<Rightarrow> ingest_error + 'p ingest_state" where
  "on_token g fc st =
     (case offside g fc st of
        Inl e \<Rightarrow> Inl e
      | Inr (Continue, st1) \<Rightarrow> Inr st1
      | Inr (Break, st1) \<Rightarrow>
          (let st2 = at_eof g st1 in Inr (feed g (t_id (token st2)) (tinfo st2) st2)))"

text \<open>The loop body on a given sequence of lexed tokens, stopping at the first failure.\<close>

fun on_tokens :: "'p grammar \<Rightarrow> string \<Rightarrow> Token list \<Rightarrow> 'p ingest_state \<Rightarrow> ingest_error + 'p ingest_state" where
  "on_tokens g fc [] st = Inr st"
| "on_tokens g fc (tok # toks) st =
     (case on_token g fc (got_token tok st) of
        Inl e \<Rightarrow> Inl e
      | Inr st' \<Rightarrow> on_tokens g fc toks st')"

definition ingest_body :: "'p grammar \<Rightarrow> string \<Rightarrow> 'p ingest_state \<Rightarrow> ingest_error + 'p ingest_state" where
  "ingest_body g fc st = on_token g fc (lex_step g fc st)"


text \<open>
  The state before the first iteration. \<open>nl\<close>, \<open>ws\<close>, \<open>tinfo\<close> and \<open>tindent\<close> are
  uninitialised in the source and written before they are read; only \<open>token.end\<close> is set.
\<close>

definition ingest_init :: "'p grammar \<Rightarrow> 'p ingest_state" where
  "ingest_init g =
     \<lparr>parser = ParseAlloc g, fed = [], indent_stack = [], indent = [], state = STATE_IDLE,
      token = \<lparr>t_id = TOKEN_WS, t_end = 0, t_ok = True\<rparr>,
      nl = \<lparr>t_id = TOKEN_WS, t_end = 0, t_ok = True\<rparr>,
      ws = \<lparr>t_id = TOKEN_WS, t_end = 0, t_ok = True\<rparr>,
      tinfo = \<lparr>ti_start = 0, ti_end = 0\<rparr>, tindent = \<lparr>ti_start = 0, ti_end = 0\<rparr>,
      newlines = [], illegal = []\<rparr>"



subsection \<open>An instance: a lexer of single bytes\<close>

text \<open>
  A lexer that makes one token of every newline, run of blanks, \<open>#\<close> and other byte and
  \<open>TOKEN_EOF\<close> at the end of the file, with a parser that records the terminals it is
  given and always shifts a newline.
\<close>

definition byte_lexer :: "string \<Rightarrow> nat \<Rightarrow> Token" where
  "byte_lexer fc p =
     (if length fc \<le> p then \<lparr>t_id = TOKEN_EOF, t_end = p, t_ok = True\<rparr>
      else if fc ! p = CHR 0x0A then \<lparr>t_id = TOKEN_NL, t_end = Suc p, t_ok = True\<rparr>
      else if fc ! p = CHR '' '' then
        \<lparr>t_id = TOKEN_WS, t_end = p + length (takeWhile (\<lambda>c. c = CHR '' '') (drop p fc)), t_ok = True\<rparr>
      else if fc ! p = CHR ''#'' then \<lparr>t_id = TOKEN_COMMENT, t_end = Suc p, t_ok = True\<rparr>
      else \<lparr>t_id = TOKEN_OTHER 0, t_end = Suc p, t_ok = True\<rparr>)"

definition byte_grammar :: "token_id list grammar" where
  "byte_grammar =
     \<lparr>lex_wake = byte_lexer,
      lex_dstr = (\<lambda>fc p. \<lparr>t_id = TOKEN_STR_CLOSE, t_end = Suc p, t_ok = True\<rparr>),
      lex_rstr = (\<lambda>fc p. \<lparr>t_id = TOKEN_REG_CLOSE, t_end = Suc p, t_ok = True\<rparr>),
      ParseAlloc = [],
      ParseShifts = (\<lambda>p t. t = TOKEN_NL \<or> (t = TOKEN_STR_CLOSE \<and> p \<noteq> [] \<and> last p = TOKEN_OTHER 0)),
      Parse = (\<lambda>p t ti. p @ [t])\<rparr>"


subsection \<open>Balance of the offside tokens\<close>






text \<open>What an empty or comment-only line must leave alone.\<close>

definition same_indentation :: "'p ingest_state \<Rightarrow> 'p ingest_state \<Rightarrow> bool" where
  "same_indentation st st' =
     (fed st' = fed st \<and> parser st' = parser st \<and>
      indent st' = indent st \<and> indent_stack st' = indent_stack st)"

section \<open>The concrete syntax tree (cst.h)\<close>

datatype cst_id =
    CST_APP | CST_ARITY | CST_BINARY | CST_BLOCK | CST_CASE | CST_DATA | CST_DEF | CST_EXPORT
  | CST_FLAG_EXPORT | CST_FLAG_GLOBAL | CST_GUARD | CST_HOLE | CST_ID | CST_IDEQ | CST_IF
  | CST_IMPORT | CST_INTERPOLATE | CST_KIND | CST_LAMBDA | CST_LITERAL | CST_MATCH | CST_OP
  | CST_PACKAGE | CST_PAREN | CST_PRIM | CST_PUBLISH | CST_REQUIRE | CST_SUBSCRIBE
  | CST_TARGET | CST_TOP | CST_TOPIC | CST_TUPLE | CST_TUPLE_ELT | CST_UNARY | CST_ERROR

text \<open>
  The 8-bit id of an element is a terminal of the grammar (below 128) or one of the
  \<open>CST_*\<close> kinds (from 128 on).
\<close>

datatype elem_id = Terminal token_id | NonTerminal cst_id

text \<open>A source location: the file and the range in it (location.h is not at hand).\<close>

record Location =
  filename :: string
  l_start :: nat
  l_end :: nat

text \<open>
  An element of the tree: its id, where it is, the bytes it covers, and its child
  elements (tokens and nodes) in source order.
\<close>

datatype CSTNode =
  CSTNode (n_id: elem_id) (n_location: Location) (n_content: string) (n_children: "CSTNode list")

text \<open>
  Modelled from the spec: the iterator API of \<open>CSTElement\<close> (\<open>firstChildElement\<close>,
  \<open>firstChildNode\<close>, \<open>nextSiblingElement\<close>, \<open>nextSiblingNode\<close>, \<open>id()\<close>,
  \<open>content()\<close>, \<open>location()\<close>, \<open>empty()\<close>), whose implementation is not at hand.
  A \<open>CSTElement\<close> is a position among siblings, here the list of the siblings from
  that position on; the empty list is the empty element, which has no id.
\<close>

type_synonym CSTElement = "CSTNode list"

definition isNode :: "CSTNode \<Rightarrow> bool" where
  "isNode n = (case n_id n of NonTerminal k \<Rightarrow> True | Terminal t \<Rightarrow> False)"

definition elt_empty :: "CSTElement \<Rightarrow> bool" where
  "elt_empty e = (e = [])"

definition elt_id :: "CSTElement \<Rightarrow> elem_id option" where
  "elt_id e = (case e of [] \<Rightarrow> None | n # rest \<Rightarrow> Some (n_id n))"

definition elt_content :: "CSTElement \<Rightarrow> string" where
  "elt_content e = (case e of [] \<Rightarrow> [] | n # rest \<Rightarrow> n_content n)"

definition no_location :: Location where
  "no_location = \<lparr>filename = [], l_start = 0, l_end = 0\<rparr>"

definition elt_location :: "CSTElement \<Rightarrow> Location" where
  "elt_location e = (case e of [] \<Rightarrow> no_location | n # rest \<Rightarrow> n_location n)"

definition firstChildElement :: "CSTElement \<Rightarrow> CSTElement" where
  "firstChildElement e = (case e of [] \<Rightarrow> [] | n # rest \<Rightarrow> n_children n)"

definition firstChildNode :: "CSTElement \<Rightarrow> CSTElement" where
  "firstChildNode e = dropWhile (\<lambda>n. \<not> isNode n) (firstChildElement e)"

definition nextSiblingElement :: "CSTElement \<Rightarrow> CSTElement" where
  "nextSiblingElement e = tl e"

definition nextSiblingNode :: "CSTElement \<Rightarrow> CSTElement" where
  "nextSiblingNode e = dropWhile (\<lambda>n. \<not> isNode n) (tl e)"

text \<open>
  The positions that a loop \<open>for (; !e.empty(); e.nextSiblingNode())\<close> visits, from
  \<open>e\<close> on.
\<close>

function siblings :: "CSTElement \<Rightarrow> CSTElement list" where
  "siblings e = (if elt_empty e then [] else e # siblings (nextSiblingNode e))"
  by pat_completeness auto
termination
  by (relation "measure length")
     (auto simp: elt_empty_def nextSiblingNode_def
           intro: le_less_trans[OF length_dropWhile_le])

declare siblings.simps [simp del]

section \<open>Types, sums and expressions (datatype.h, and expr.h from the spec)\<close>

datatype AST =
  AST (ast_token: Location) (ast_region: Location) (ast_name: string) (ast_tag: string)
      (ast_type: "AST option") (ast_args: "AST list")

text \<open>
  Modelled from the spec: the constructors of \<open>AST\<close>, \<open>Sum\<close> and \<open>addConstructor\<close>
  (datatype.cpp is not at hand). A new \<open>AST\<close> has its region at its token, no tag and
  no type. A \<open>Sum\<close> takes the name, token and region of its head and the names of the
  head's arguments; a constructor added to it gets the next index.
\<close>

definition new_AST :: "Location \<Rightarrow> string \<Rightarrow> AST list \<Rightarrow> AST" where
  "new_AST tok nm as = AST tok tok nm [] None as"

record Constructor =
  c_ast :: AST
  c_index :: nat
  c_scoped :: bool

record Sum =
  s_name :: string
  s_token :: Location
  s_region :: Location
  s_args :: "string list"
  s_members :: "Constructor list"
  s_scoped :: bool

definition new_Sum :: "AST \<Rightarrow> Sum" where
  "new_Sum a = \<lparr>s_name = ast_name a, s_token = ast_token a, s_region = ast_region a,
               s_args = map ast_name (ast_args a), s_members = [], s_scoped = False\<rparr>"

definition addConstructor :: "AST \<Rightarrow> Sum \<Rightarrow> Sum" where
  "addConstructor a s =
     s\<lparr>s_members := s_members s @ [\<lparr>c_ast = a, c_index = length (s_members s), c_scoped = False\<rparr>]\<rparr>"

text \<open>
  Modelled from the spec: the desugared expressions (expr.h is not at hand). Every
  expression carries a location and flag bits. \<open>Construct\<close> and \<open>Get\<close> share their
  \<open>Sum\<close>, which is complete when they are built, and name the constructor by its
  index in the sum. A nested \<open>DefMap\<close> holds its definitions (name, location, body)
  in insertion order and its body.
\<close>

datatype expr_flag = FLAG_TOUCHED | FLAG_AST | FLAG_SYNTHETIC

datatype 'e expr_node =
    VarRef string
  | Literal string
  | Lambda string 'e
  | App 'e 'e
  | DefMap "(string \<times> Location \<times> 'e) list" 'e
  | Match "'e list" "(AST \<times> 'e \<times> 'e option) list" "'e option" bool
  | Ascribe AST 'e
  | Prim string
  | Construct Sum nat
  | Get Sum nat nat
  | Subscribe string

datatype Expr = Expr (location: Location) (flags: "expr_flag set") (node: "Expr expr_node")

definition new_Expr :: "Location \<Rightarrow> Expr expr_node \<Rightarrow> Expr" where
  "new_Expr l n = Expr l {} n"

definition set_flag :: "expr_flag \<Rightarrow> Expr \<Rightarrow> Expr" where
  "set_flag f e = Expr (location e) (insert f (flags e)) (node e)"

section \<open>Symbol tables and diagnostics\<close>

text \<open>
  A \<open>std::map\<close> is the list of its entries, each key once. \<open>map_insert\<close> is
  \<open>std::map::insert\<close>: it adds the entry unless the key is there; \<open>map_of\<close> looks a
  key up. None of the code modelled below iterates over a map, so the entries stay in
  the order of insertion.
\<close>

definition map_insert :: "'k \<Rightarrow> 'v \<Rightarrow> ('k \<times> 'v) list \<Rightarrow> ('k \<times> 'v) list" where
  "map_insert k v m = (case map_of m k of None \<Rightarrow> m @ [(k, v)] | Some old \<Rightarrow> m)"

record SymbolSource =
  ss_location :: Location
  ss_qualified :: string
  ss_leaf :: bool      \<comment> \<open>the flag \<open>SYM_LEAF\<close>\<close>

type_synonym SymbolMap = "(string \<times> SymbolSource) list"

record Symbols =
  defs :: SymbolMap
  types :: SymbolMap
  topics :: SymbolMap

record Imports = Symbols +
  mixed :: SymbolMap
  import_all :: "string list"

definition no_symbols :: Symbols where
  "no_symbols = \<lparr>defs = [], types = [], topics = []\<rparr>"

definition no_imports :: Imports where
  "no_imports = \<lparr>defs = [], types = [], topics = [], mixed = [], import_all = []\<rparr>"

text \<open>
  Modelled from the spec: \<open>Imports::empty()\<close> (expr.h is not at hand): nothing was
  imported, by name or by wildcard.
\<close>

definition imports_empty :: "Imports \<Rightarrow> bool" where
  "imports_empty i =
     (import_all i = [] \<and> mixed i = [] \<and> defs i = [] \<and> types i = [] \<and> topics i = [])"

text \<open>
  The diagnostics of the desugarer. The \<open>ERROR\<close> macro formats a text and reports it
  at a location with severity error; the model keeps what the text is made of.
\<close>

datatype message =
    PackageBuiltin                              \<comment> \<open>package name 'builtin' is illegal.\<close>
  | PackageRedefined string string              \<comment> \<open>package name redefined from '..' to '..'\<close>
  | ArityRequired string                        \<comment> \<open>keyword 'binary' or 'unary' required when changing symbol type for ..\<close>
  | PreviouslyImported string string Location   \<comment> \<open>kind '..' was previously imported at ..\<close>
  | ExportKindRequired                          \<comment> \<open>from ... export must be followed by 'def', 'type', or 'topic'\<close>
  | ExportArityRequired string                  \<comment> \<open>export of .. must specify 'unary' or 'binary'\<close>
  | PreviouslyDefined string string Location    \<comment> \<open>kind '..' was previously defined at ..\<close>
  | TagNotSimple string                         \<comment> \<open>tag-name for a type must be a simple lower-case identifier, not ..\<close>
  | LowerTypeConstructor string                 \<comment> \<open>lower-case identifier '..' cannot be used as a type constructor\<close>
  | ExcessTypeArgument string string            \<comment> \<open>excess type argument .. supplied to '..'\<close>
  | TypeForbids string                          \<comment> \<open>type signatures forbid ..\<close>
  | TopicNotLower string                        \<comment> \<open>topic identifier '..' is not lower-case\<close>
  | DataNotUpper string                         \<comment> \<open>data type '..' must be upper-case or operator\<close>
  | ConstructorTagged string string             \<comment> \<open>constructor '..' should not be tagged with ..\<close>
  | ConstructorNotUpper string                  \<comment> \<open>constructor '..' must be upper-case or operator\<close>
  | TupleNotUpper string                        \<comment> \<open>tuple type '..' must be upper-case\<close>
  | OpenTypeVariable string                     \<comment> \<open>reported by \<open>AST::unify\<close>\<close>

record diagnostic =
  d_location :: Location
  d_message :: message

text \<open>
  The functions of the lexer and of the type checker that the desugarer calls and that
  are not at hand, as parameters: \<open>relex_id\<close> gives the identifier of a token's bytes,
  \<open>lex_kind\<close> classifies an identifier, \<open>unify\<close> gives the diagnostics of
  \<open>AST::unify\<close> on a topic's type.
\<close>

datatype id_kind = LOWER | UPPER | OPERATOR

record frontend =
  relex_id :: "string \<Rightarrow> string"
  lex_kind :: "string \<Rightarrow> id_kind"
  unify :: "AST \<Rightarrow> diagnostic list"

section \<open>The desugarer (todst.cpp)\<close>

record Topic =
  tp_location :: Location
  tp_type :: AST

record DefValue =
  dv_location :: Location
  dv_body :: Expr
  dv_typeVars :: "(string \<times> Location) list"

text \<open>
  What the functions of the desugarer read and write while one file is desugared: the
  package (its name, its exports, its types), the file (the definitions and imports of
  its \<open>DefMap\<close>, its topics, its local symbols), the globals, the sums handed to
  \<open>check_special\<close>, and the diagnostics reported so far.
\<close>

record desugar =
  pkg_name :: string
  pkg_exports :: Symbols
  pkg_types :: SymbolMap
  file_defs :: "(string \<times> DefValue) list"
  file_imports :: Imports
  file_topics :: "(string \<times> Topic) list"
  file_local :: Symbols
  globals :: Symbols
  specials :: "Sum list"
  reports :: "diagnostic list"

definition report :: "Location \<Rightarrow> message \<Rightarrow> desugar \<Rightarrow> desugar" where
  "report l m st = st\<lparr>reports := reports st @ [\<lparr>d_location = l, d_message = m\<rparr>]\<rparr>"

text \<open>\<open>std::to_string\<close> of an unsigned number.\<close>

fun to_string :: "nat \<Rightarrow> string" where
  "to_string n =
     (if n < 10 then [''0123456789'' ! n]
      else to_string (n div 10) @ [''0123456789'' ! (n mod 10)])"

declare to_string.simps [simp del]

text \<open>
  Lines 42-46. The identifier of a \<open>CST_ID\<close> or \<open>CST_OP\<close> node is relexed from the
  bytes of its first token (the assertion on the kind of the node is not modelled).
\<close>

definition getIdentifier :: "frontend \<Rightarrow> CSTElement \<Rightarrow> string" where
  "getIdentifier fe element = relex_id fe (elt_content (firstChildElement element))"

subsection \<open>Packages, imports and exports\<close>

definition parse_package :: "frontend \<Rightarrow> CSTElement \<Rightarrow> desugar \<Rightarrow> desugar" where
  "parse_package fe topdef st =
     (let child = firstChildNode topdef;
          ident = getIdentifier fe child
      in if ident = ''builtin'' then report (elt_location child) PackageBuiltin st
         else if pkg_name st = [] then st\<lparr>pkg_name := ident\<rparr>
         else report (elt_location topdef) (PackageRedefined (pkg_name st) ident) st)"

record ImportArity =
  unary :: bool
  binary :: bool

definition parse_arity :: "CSTElement \<Rightarrow> ImportArity \<times> CSTElement" where
  "parse_arity child =
     (if elt_id child = Some (NonTerminal CST_ARITY) then
        (\<lparr>unary = (elt_id (firstChildElement child) = Some (Terminal TOKEN_KW_UNARY)),
          binary = (elt_id (firstChildElement child) = Some (Terminal TOKEN_KW_BINARY))\<rparr>,
         nextSiblingNode child)
      else (\<lparr>unary = False, binary = False\<rparr>, child))"

definition prefix_op :: "ImportArity \<Rightarrow> string \<Rightarrow> string" where
  "prefix_op ia name =
     (if unary ia then ''unary '' @ name
      else if binary ia then ''binary '' @ name
      else ''op '' @ name)"

text \<open>The map of the imports that an import clause writes to.\<close>

datatype import_target = To_mixed | To_defs | To_types | To_topics

definition get_target :: "import_target \<Rightarrow> Imports \<Rightarrow> SymbolMap" where
  "get_target t i =
     (case t of To_mixed \<Rightarrow> mixed i | To_defs \<Rightarrow> defs i | To_types \<Rightarrow> types i | To_topics \<Rightarrow> topics i)"

definition set_target :: "import_target \<Rightarrow> SymbolMap \<Rightarrow> Imports \<Rightarrow> Imports" where
  "set_target t m i =
     (case t of To_mixed \<Rightarrow> i\<lparr>mixed := m\<rparr> | To_defs \<Rightarrow> i\<lparr>defs := m\<rparr>
              | To_types \<Rightarrow> i\<lparr>types := m\<rparr> | To_topics \<Rightarrow> i\<lparr>topics := m\<rparr>)"

text \<open>
  Lines 860-881: the local name and the source of one imported symbol, and whether the
  clause changed the kind of the symbol without \<open>unary\<close> or \<open>binary\<close>.
\<close>

definition import_names :: "frontend \<Rightarrow> ImportArity \<Rightarrow> string \<Rightarrow> CSTElement \<Rightarrow> string \<times> string \<times> bool" where
  "import_names fe ia pkgname child =
     (let ideq = firstChildNode child;
          idop1 = elt_id ideq;
          name = getIdentifier fe ideq;
          ideq2 = nextSiblingNode ideq;
          (idop1', name', idop2, source, err) =
            (if elt_empty ideq2 then (idop1, name, idop1, name @ ''@'' @ pkgname, False)
             else if elt_id ideq2 = idop1 \<or> binary ia \<or> unary ia then
               (idop1, name, elt_id ideq2, getIdentifier fe ideq2 @ ''@'' @ pkgname, False)
             else
               (elt_id ideq2, getIdentifier fe ideq2, elt_id ideq2,
                getIdentifier fe ideq2 @ ''@'' @ pkgname, True))
      in (if idop1' = Some (NonTerminal CST_OP) then prefix_op ia name' else name',
          if idop2 = Some (NonTerminal CST_OP) then prefix_op ia source else source,
          err))"

text \<open>Lines 859-885: one round of the loop over the imported symbols.\<close>

definition import_item ::
  "frontend \<Rightarrow> ImportArity \<Rightarrow> string \<Rightarrow> string \<Rightarrow> import_target \<Rightarrow> CSTElement \<Rightarrow> desugar \<Rightarrow> desugar" where
  "import_item fe ia pkgname kind target child st =
     (case import_names fe ia pkgname child of
        (name, source, err) \<Rightarrow>
          (let st1 = (if err then report (elt_location child) (ArityRequired (elt_content child)) st
                      else st);
               m = get_target target (file_imports st1)
           in case map_of m name of
                None \<Rightarrow>
                  st1\<lparr>file_imports :=
                        set_target target
                          (m @ [(name, \<lparr>ss_location = elt_location child, ss_qualified = source,
                                        ss_leaf = False\<rparr>)])
                          (file_imports st1)\<rparr>
              | Some prev \<Rightarrow>
                  report (elt_location child) (PreviouslyImported kind name (ss_location prev)) st1))"

function import_loop ::
  "frontend \<Rightarrow> ImportArity \<Rightarrow> string \<Rightarrow> string \<Rightarrow> import_target \<Rightarrow> CSTElement \<Rightarrow> desugar \<Rightarrow> desugar" where
  "import_loop fe ia pkgname kind target child st =
     (if elt_empty child then st
      else import_loop fe ia pkgname kind target (nextSiblingNode child)
             (import_item fe ia pkgname kind target child st))"
  by pat_completeness auto
termination
  by (relation "measure (\<lambda>(fe, ia, pkgname, kind, target, child, st). length child)")
     (auto simp: elt_empty_def nextSiblingNode_def
           intro: le_less_trans[OF length_dropWhile_le])

declare import_loop.simps [simp del]

text \<open>
  Lines 833-851: the head of an import clause: the package, the kind of the symbols and
  the map they go to, the arity, and the position of the first imported symbol.
\<close>

definition import_header ::
  "frontend \<Rightarrow> CSTElement \<Rightarrow> string \<times> string \<times> import_target \<times> ImportArity \<times> CSTElement" where
  "import_header fe topdef =
     (let child = firstChildNode topdef;
          pkgname = getIdentifier fe child;
          child1 = nextSiblingNode child;
          t = elt_id (firstChildElement child1);
          is_kind = (elt_id child1 = Some (NonTerminal CST_KIND));
          kind = (if is_kind \<and> t = Some (Terminal TOKEN_KW_DEF) then ''definition''
                  else if is_kind \<and> t = Some (Terminal TOKEN_KW_TYPE) then ''type''
                  else if is_kind \<and> t = Some (Terminal TOKEN_KW_TOPIC) then ''topic''
                  else ''symbol'');
          target = (if is_kind \<and> t = Some (Terminal TOKEN_KW_DEF) then To_defs
                    else if is_kind \<and> t = Some (Terminal TOKEN_KW_TYPE) then To_types
                    else if is_kind \<and> t = Some (Terminal TOKEN_KW_TOPIC) then To_topics
                    else To_mixed);
          child2 = (if is_kind then nextSiblingNode child1 else child1)
      in case parse_arity child2 of (ia, child3) \<Rightarrow> (pkgname, kind, target, ia, child3))"

definition parse_import :: "frontend \<Rightarrow> CSTElement \<Rightarrow> desugar \<Rightarrow> desugar" where
  "parse_import fe topdef st =
     (case import_header fe topdef of
        (pkgname, kind, target, ia, child) \<Rightarrow>
          if elt_empty child then
            st\<lparr>file_imports := (file_imports st)\<lparr>import_all := import_all (file_imports st) @ [pkgname]\<rparr>\<rparr>
          else import_loop fe ia pkgname kind target child st)"

text \<open>Lines 888-946. The kind of an export clause selects a map of the exports and of the file's local symbols.\<close>

datatype export_target = Ex_defs | Ex_types | Ex_topics

definition get_symbols :: "export_target \<Rightarrow> Symbols \<Rightarrow> SymbolMap" where
  "get_symbols t s = (case t of Ex_defs \<Rightarrow> defs s | Ex_types \<Rightarrow> types s | Ex_topics \<Rightarrow> topics s)"

definition set_symbols :: "export_target \<Rightarrow> SymbolMap \<Rightarrow> Symbols \<Rightarrow> Symbols" where
  "set_symbols t m s =
     (case t of Ex_defs \<Rightarrow> s\<lparr>defs := m\<rparr> | Ex_types \<Rightarrow> s\<lparr>types := m\<rparr> | Ex_topics \<Rightarrow> s\<lparr>topics := m\<rparr>)"

definition export_item ::
  "frontend \<Rightarrow> ImportArity \<Rightarrow> string \<Rightarrow> string \<Rightarrow> export_target \<Rightarrow> CSTElement \<Rightarrow> desugar \<Rightarrow> desugar" where
  "export_item fe ia pkgname kind target child st =
     (let ideq = firstChildNode child;
          idop1 = elt_id ideq;
          name = getIdentifier fe ideq;
          ideq2 = nextSiblingNode ideq;
          idop2 = (if elt_empty ideq2 then idop1 else elt_id ideq2);
          source = (if elt_empty ideq2 then name @ ''@'' @ pkgname
                    else getIdentifier fe ideq2 @ ''@'' @ pkgname)
      in if (idop1 = Some (NonTerminal CST_OP) \<or> idop2 = Some (NonTerminal CST_OP)) \<and>
            \<not> (unary ia \<or> binary ia)
         then report (elt_location child) (ExportArityRequired (elt_content child)) st
         else
           (let name' = (if idop1 = Some (NonTerminal CST_OP) then prefix_op ia name else name);
                source' = (if idop2 = Some (NonTerminal CST_OP) then prefix_op ia source else source);
                sym = \<lparr>ss_location = elt_location child, ss_qualified = source', ss_leaf = False\<rparr>;
                st1 = st\<lparr>pkg_exports :=
                           set_symbols target
                             (map_insert name' sym (get_symbols target (pkg_exports st)))
                             (pkg_exports st)\<rparr>
            in case map_of (get_symbols target (file_local st1)) name' of
                 None \<Rightarrow>
                   st1\<lparr>file_local :=
                         set_symbols target (get_symbols target (file_local st1) @ [(name', sym)])
                           (file_local st1)\<rparr>
               | Some prev \<Rightarrow>
                   report (elt_location child) (PreviouslyDefined kind name' (ss_location prev)) st1))"

function export_loop ::
  "frontend \<Rightarrow> ImportArity \<Rightarrow> string \<Rightarrow> string \<Rightarrow> export_target \<Rightarrow> CSTElement \<Rightarrow> desugar \<Rightarrow> desugar" where
  "export_loop fe ia pkgname kind target child st =
     (if elt_empty child then st
      else export_loop fe ia pkgname kind target (nextSiblingNode child)
             (export_item fe ia pkgname kind target child st))"
  by pat_completeness auto
termination
  by (relation "measure (\<lambda>(fe, ia, pkgname, kind, target, child, st). length child)")
     (auto simp: elt_empty_def nextSiblingNode_def
           intro: le_less_trans[OF length_dropWhile_le])

declare export_loop.simps [simp del]

definition parse_export :: "frontend \<Rightarrow> CSTElement \<Rightarrow> desugar \<Rightarrow> desugar" where
  "parse_export fe topdef st =
     (let child = firstChildNode topdef;
          pkgname = getIdentifier fe child;
          child1 = nextSiblingNode child;
          t = elt_id (firstChildElement child1);
          sel = (if elt_id child1 = Some (NonTerminal CST_KIND) then
                   (if t = Some (Terminal TOKEN_KW_DEF) then Some (''definition'', Ex_defs)
                    else if t = Some (Terminal TOKEN_KW_TYPE) then Some (''type'', Ex_types)
                    else if t = Some (Terminal TOKEN_KW_TOPIC) then Some (''topic'', Ex_topics)
                    else None)
                 else None);
          child2 = (if elt_id child1 = Some (NonTerminal CST_KIND) then nextSiblingNode child1
                    else child1)
      in case sel of
           None \<Rightarrow> report (elt_location child2) ExportKindRequired st
         | Some (kind, target) \<Rightarrow>
             (case parse_arity child2 of
                (ia, child3) \<Rightarrow> export_loop fe ia pkgname kind target child3 st))"

subsection \<open>Flags and type expressions\<close>

record TopFlags =
  exportf :: bool
  globalf :: bool

definition parse_flags :: "CSTElement \<Rightarrow> TopFlags \<times> CSTElement" where
  "parse_flags child =
     (let g = (elt_id child = Some (NonTerminal CST_FLAG_GLOBAL));
          child1 = (if g then nextSiblingNode child else child);
          e = (elt_id child1 = Some (NonTerminal CST_FLAG_EXPORT));
          child2 = (if e then nextSiblingNode child1 else child1)
      in (\<lparr>exportf = e, globalf = g\<rparr>, child2))"

definition diag :: "Location \<Rightarrow> message \<Rightarrow> diagnostic" where
  "diag l m = \<lparr>d_location = l, d_message = m\<rparr>"

definition set_region :: "Location \<Rightarrow> AST \<Rightarrow> AST" where
  "set_region r a = AST (ast_token a) r (ast_name a) (ast_tag a) (ast_type a) (ast_args a)"

definition set_tag :: "string \<Rightarrow> AST \<Rightarrow> AST" where
  "set_tag t a = AST (ast_token a) (ast_region a) (ast_name a) t (ast_type a) (ast_args a)"

definition add_arg :: "AST \<Rightarrow> AST \<Rightarrow> AST" where
  "add_arg x a = AST (ast_token a) (ast_region a) (ast_name a) (ast_tag a) (ast_type a) (ast_args a @ [x])"

lemma size_list_dropWhile_le: "size_list f (dropWhile P xs) \<le> size_list f xs"
  by (induction xs) auto

lemma size_list_tl_le: "size_list f (tl xs) \<le> size_list f xs"
  by (cases xs) auto

lemma firstChildNode_smaller:
  "elt_id root = Some i \<Longrightarrow> size_list size (firstChildNode root) < size_list size root"
proof (cases root)
  case Nil
  assume "elt_id root = Some i"
  with Nil show ?thesis by (simp add: elt_id_def)
next
  case (Cons n rest)
  have "size_list size (dropWhile (\<lambda>n. \<not> isNode n) (n_children n)) \<le> size_list size (n_children n)"
    by (rule size_list_dropWhile_le)
  moreover have "size_list size (n_children n) < size n" by (cases n) simp
  ultimately show ?thesis using Cons by (simp add: firstChildNode_def firstChildElement_def)
qed

lemma nextSiblingNode_le: "size_list size (nextSiblingNode e) \<le> size_list size e"
  unfolding nextSiblingNode_def
  by (rule order_trans[OF size_list_dropWhile_le size_list_tl_le])

text \<open>
  Lines 973-1049. The result is the type and the diagnostics reported on the way, in
  the order of the source.
\<close>

function parse_type :: "frontend \<Rightarrow> CSTElement \<Rightarrow> AST \<times> diagnostic list" where
  "parse_type fe root =
     (if elt_id root = Some (NonTerminal CST_BINARY) then
        (let child = firstChildNode root;
             l = parse_type fe child;
             child1 = nextSiblingNode child;
             op = ''binary '' @ getIdentifier fe child1;
             loc = elt_location child1;
             child2 = nextSiblingNode child1;
             r = parse_type fe child2
         in if op = ''binary :'' then
              (if ast_args (fst l) \<noteq> [] \<or> lex_kind fe (ast_name (fst l)) = OPERATOR then
                 (fst r, snd l @ snd r @
                    [diag (ast_region (fst l)) (TagNotSimple (elt_content (firstChildNode root)))])
               else (set_region (elt_location root) (set_tag (ast_name (fst l)) (fst r)),
                     snd l @ snd r))
            else (set_region (elt_location root) (new_AST loc op [fst l, fst r]), snd l @ snd r))
      else if elt_id root = Some (NonTerminal CST_UNARY) then
        (let child = firstChildNode root;
             pre = (elt_id child \<noteq> Some (NonTerminal CST_OP));
             a = (if pre then parse_type fe child else (new_AST no_location [] [], []));
             child1 = (if pre then nextSiblingNode child else child);
             op = ''unary '' @ getIdentifier fe child1;
             loc = elt_location child1;
             child2 = nextSiblingNode child1;
             b = (if pre then (new_AST no_location [] [], []) else parse_type fe child2)
         in (set_region (elt_location root) (new_AST loc op [if pre then fst a else fst b]),
             snd a @ snd b))
      else if elt_id root = Some (NonTerminal CST_ID) then
        (new_AST (elt_location root) (getIdentifier fe root) [], [])
      else if elt_id root = Some (NonTerminal CST_PAREN) then
        (let out = parse_type fe (firstChildNode root)
         in (set_region (elt_location root) (fst out), snd out))
      else if elt_id root = Some (NonTerminal CST_APP) then
        (let child = firstChildNode root;
             l = parse_type fe child;
             child1 = nextSiblingNode child;
             r = parse_type fe child1;
             errs = (case lex_kind fe (ast_name (fst l)) of
                       LOWER \<Rightarrow> [diag (ast_token (fst l)) (LowerTypeConstructor (ast_name (fst l)))]
                     | OPERATOR \<Rightarrow> [diag (ast_region (fst r))
                                      (ExcessTypeArgument (elt_content child1) (ast_name (fst l)))]
                     | UPPER \<Rightarrow> [])
         in (set_region (elt_location root) (add_arg (fst r) (fst l)), snd l @ snd r @ errs))
      else if elt_id root = Some (NonTerminal CST_ERROR) then
        (new_AST (elt_location root) ''BadType'' [], [])
      else
        (new_AST (elt_location root) ''BadType'' [],
         [diag (elt_location root) (TypeForbids (elt_content root))]))"
  by pat_completeness auto
termination
proof (relation "measure (\<lambda>(fe, root). size_list size root)", goal_cases)
  case 1
  show ?case by simp
next
  case (2 fe root)
  then show ?case using firstChildNode_smaller[of root] by simp
next
  case (3 fe root x xa xb xc xd xe)
  then show ?case
    using firstChildNode_smaller[of root] nextSiblingNode_le[of "firstChildNode root"]
          nextSiblingNode_le[of "nextSiblingNode (firstChildNode root)"]
    by simp
next
  case (4 fe root x xa)
  then show ?case using firstChildNode_smaller[of root] by simp
next
  case (5 fe root x xa xb xc xd xe xf)
  then show ?case
    using firstChildNode_smaller[of root] nextSiblingNode_le[of "firstChildNode root"]
          nextSiblingNode_le[of "nextSiblingNode (firstChildNode root)"]
    by (auto split: if_splits)
next
  case (6 fe root)
  then show ?case using firstChildNode_smaller[of root] by simp
next
  case (7 fe root x)
  then show ?case using firstChildNode_smaller[of root] by simp
next
  case (8 fe root x xa xb)
  then show ?case
    using firstChildNode_smaller[of root] nextSiblingNode_le[of "firstChildNode root"]
    by simp
qed

declare parse_type.simps [simp del]

subsection \<open>Topics\<close>

definition leaf_symbol :: "Location \<Rightarrow> SymbolSource" where
  "leaf_symbol l = \<lparr>ss_location = l, ss_qualified = [], ss_leaf = True\<rparr>"

definition parse_topic :: "frontend \<Rightarrow> CSTElement \<Rightarrow> desugar \<Rightarrow> desugar" where
  "parse_topic fe topdef st =
     (case parse_flags (firstChildNode topdef) of
        (fl, child) \<Rightarrow>
          (let ident = getIdentifier fe child;
               loc = elt_location child
           in if lex_kind fe ident \<noteq> LOWER then report (elt_location child) (TopicNotLower ident) st
              else
                (let d = parse_type fe (nextSiblingNode child);
                     st1 = st\<lparr>reports := reports st @ snd d @ unify fe (fst d)\<rparr>
                 in case map_of (file_topics st1) ident of
                      Some prev \<Rightarrow>
                        report loc (PreviouslyDefined ''topic'' ident (tp_location prev)) st1
                    | None \<Rightarrow>
                        (let st2 = st1\<lparr>file_topics := file_topics st1 @
                                          [(ident, \<lparr>tp_location = loc, tp_type = fst d\<rparr>)]\<rparr>;
                             st3 = (if exportf fl
                                    then st2\<lparr>pkg_exports := (pkg_exports st2)
                                              \<lparr>topics := map_insert ident (leaf_symbol loc)
                                                            (topics (pkg_exports st2))\<rparr>\<rparr>
                                    else st2)
                         in if globalf fl
                            then st3\<lparr>globals := (globals st3)
                                      \<lparr>topics := map_insert ident (leaf_symbol loc)
                                                    (topics (globals st3))\<rparr>\<rparr>
                            else st3))))"

subsection \<open>Binding definitions and types\<close>

record Definition =
  df_name :: string
  df_location :: Location
  df_body :: Expr
  df_typeVars :: "(string \<times> Location) list"

definition new_Definition :: "string \<Rightarrow> Location \<Rightarrow> Expr \<Rightarrow> Definition" where
  "new_Definition n l b = \<lparr>df_name = n, df_location = l, df_body = b, df_typeVars = []\<rparr>"

text \<open>
  Lines 1093-1127. The pointers \<open>exports\<close> and \<open>globals\<close> are either null or the
  exports of the package and the globals of \<open>dst_top\<close>: the model passes whether
  they are given.
\<close>

definition bind_global :: "Definition \<Rightarrow> bool \<Rightarrow> desugar \<Rightarrow> desugar" where
  "bind_global d given st =
     (if \<not> given \<or> df_name d = ''_'' then st
      else st\<lparr>globals := (globals st)
                \<lparr>defs := map_insert (df_name d) (leaf_symbol (df_location d)) (defs (globals st))\<rparr>\<rparr>)"

definition bind_export :: "Definition \<Rightarrow> bool \<Rightarrow> desugar \<Rightarrow> desugar" where
  "bind_export d given st =
     (if \<not> given \<or> df_name d = ''_'' then st
      else st\<lparr>pkg_exports := (pkg_exports st)
                \<lparr>defs := map_insert (df_name d) (leaf_symbol (df_location d)) (defs (pkg_exports st))\<rparr>\<rparr>)"

definition bind_def :: "Definition \<Rightarrow> bool \<Rightarrow> bool \<Rightarrow> desugar \<Rightarrow> desugar" where
  "bind_def d exports globs st =
     (let st1 = bind_export d exports (bind_global d globs st);
          name = (if df_name d = ''_''
                  then ''_'' @ to_string (length (file_defs st1)) @ '' _''
                  else df_name d);
          l = location (df_body d)
      in case map_of (file_defs st1) name of
           None \<Rightarrow>
             st1\<lparr>file_defs := file_defs st1 @
                   [(name, \<lparr>dv_location = df_location d, dv_body = df_body d,
                             dv_typeVars = df_typeVars d\<rparr>)]\<rparr>
         | Some first \<Rightarrow>
             report l (PreviouslyDefined ''definition'' name (location (dv_body first))) st1)"

definition bind_type :: "string \<Rightarrow> Location \<Rightarrow> bool \<Rightarrow> bool \<Rightarrow> desugar \<Rightarrow> desugar" where
  "bind_type name loc exports globs st =
     (let st1 = (if globs
                 then st\<lparr>globals := (globals st)
                           \<lparr>types := map_insert name (leaf_symbol loc) (types (globals st))\<rparr>\<rparr>
                 else st);
          st2 = (if exports
                 then st1\<lparr>pkg_exports := (pkg_exports st1)
                           \<lparr>types := map_insert name (leaf_symbol loc) (types (pkg_exports st1))\<rparr>\<rparr>
                 else st1)
      in case map_of (pkg_types st2) name of
           None \<Rightarrow> st2\<lparr>pkg_types := pkg_types st2 @ [(name, leaf_symbol loc)]\<rparr>
         | Some prev \<Rightarrow> report loc (PreviouslyDefined ''type'' name (ss_location prev)) st2)"

text \<open>
  \<open>check_special\<close> (not at hand) records the constructors of a sum of the package
  \<open>wake\<close> in a registry of its own: the model keeps the sums it was given.
\<close>

definition check_special :: "Sum \<Rightarrow> desugar \<Rightarrow> desugar" where
  "check_special s st = st\<lparr>specials := specials st @ [s]\<rparr>"

subsection \<open>Data declarations\<close>

text \<open>
  Lines 1137-1142: the constructors of the declaration, added to the sum, with the
  diagnostics reported on the way.
\<close>

function data_constructors ::
  "frontend \<Rightarrow> CSTElement \<Rightarrow> Sum \<times> diagnostic list \<Rightarrow> Sum \<times> diagnostic list" where
  "data_constructors fe child acc =
     (if elt_empty child then acc
      else
        (let cons = parse_type fe child;
             e1 = (if ast_tag (fst cons) \<noteq> []
                   then [diag (ast_region (fst cons))
                           (ConstructorTagged (ast_name (fst cons)) (ast_tag (fst cons)))]
                   else []);
             e2 = (if ast_args (fst cons) = [] \<and> lex_kind fe (ast_name (fst cons)) = LOWER
                   then [diag (ast_token (fst cons)) (ConstructorNotUpper (ast_name (fst cons)))]
                   else [])
         in data_constructors fe (nextSiblingNode child)
              (addConstructor (fst cons) (fst acc), snd acc @ snd cons @ e1 @ e2)))"
  by pat_completeness auto
termination
  by (relation "measure (\<lambda>(fe, child, acc). length child)")
     (auto simp: elt_empty_def nextSiblingNode_def
           intro: le_less_trans[OF length_dropWhile_le])

declare data_constructors.simps [simp del]

text \<open>
  Lines 1130-1142: the flags of the declaration, its sum with all the constructors, and
  the diagnostics of this part. The state is only written to (by the reports) here.
\<close>

definition data_sum :: "frontend \<Rightarrow> CSTElement \<Rightarrow> TopFlags \<times> Sum \<times> diagnostic list" where
  "data_sum fe topdef =
     (case parse_flags (firstChildNode topdef) of
        (fl, child) \<Rightarrow>
          (let head = parse_type fe child;
               sum0 = new_Sum (fst head);
               e0 = (if s_args sum0 = [] \<and> lex_kind fe (s_name sum0) = LOWER
                     then [diag (elt_location child) (DataNotUpper (s_name sum0))]
                     else [])
           in case data_constructors fe (nextSiblingNode child) (sum0, snd head @ e0) of
                (sump, errs) \<Rightarrow> (fl, sump, errs)))"

text \<open>Lines 1150-1151: one \<open>Lambda\<close> of parameter \<open>_\<close> for each argument of the constructor.\<close>

fun wrap_lambdas :: "Location \<Rightarrow> nat \<Rightarrow> Expr \<Rightarrow> Expr" where
  "wrap_lambdas l 0 construct = construct"
| "wrap_lambdas l (Suc n) construct = wrap_lambdas l n (new_Expr l (Lambda ''_'' construct))"

text \<open>Lines 1148-1154: the loop over the members of the sum.\<close>

fun data_members :: "Sum \<Rightarrow> bool \<Rightarrow> bool \<Rightarrow> Constructor list \<Rightarrow> desugar \<Rightarrow> desugar" where
  "data_members sump exports globs [] st = st"
| "data_members sump exports globs (c # cs) st =
     data_members sump exports globs cs
       (bind_def
          (new_Definition (ast_name (c_ast c)) (ast_token (c_ast c))
             (wrap_lambdas (ast_token (c_ast c)) (length (ast_args (c_ast c)))
                (new_Expr (ast_token (c_ast c)) (Construct sump (c_index c)))))
          exports globs st)"

definition parse_data :: "frontend \<Rightarrow> CSTElement \<Rightarrow> desugar \<Rightarrow> desugar" where
  "parse_data fe topdef st =
     (case data_sum fe topdef of
        (fl, sump, errs) \<Rightarrow>
          (let st3 = st\<lparr>reports := reports st @ errs\<rparr>;
               st4 = bind_type (s_name sump) (s_token sump) (exportf fl) (globalf fl) st3;
               st5 = data_members sump (exportf fl) (globalf fl) (s_members sump) st4
           in if pkg_name st5 = ''wake'' then check_special sump st5 else st5))"

subsection \<open>Tuple declarations\<close>

text \<open>
  Lines 1173-1177: the flags and the type of each member of the tuple.
\<close>

function tuple_elements ::
  "frontend \<Rightarrow> CSTElement \<Rightarrow> TopFlags list \<times> AST list \<times> diagnostic list
     \<Rightarrow> TopFlags list \<times> AST list \<times> diagnostic list" where
  "tuple_elements fe child acc =
     (if elt_empty child then acc
      else
        (case parse_flags (firstChildNode child) of
           (fl, elt) \<Rightarrow>
             (let t = parse_type fe elt
              in tuple_elements fe (nextSiblingNode child)
                   (fst acc @ [fl], fst (snd acc) @ [fst t], snd (snd acc) @ snd t))))"
  by pat_completeness auto
termination
  by (relation "measure (\<lambda>(fe, child, acc). length child)")
     (auto simp: elt_empty_def nextSiblingNode_def
           intro: le_less_trans[OF length_dropWhile_le])

declare tuple_elements.simps [simp del]

text \<open>
  The name of slot \<open>inner\<close> among \<open>n\<close> members is \<open>_ a\<close> and the number
  \<open>n - inner\<close> in four digits. \<open>std::string(4 - x.size(), '0')\<close> computes the count in
  \<open>size_t\<close>: with more than four digits it wraps around and the constructor throws
  \<open>std::length_error\<close>.
\<close>

datatype dst_error = LengthError

definition slot_name :: "nat \<Rightarrow> nat \<Rightarrow> dst_error + string" where
  "slot_name n inner =
     (let x = to_string (n - inner)
      in if 4 < length x then Inl LengthError
         else Inr (''_ a'' @ replicate (4 - length x) (CHR ''0'') @ x))"

text \<open>Lines 1212-1225: the definitions of the map of an \<open>edit\<close> accessor.\<close>

fun edit_defs ::
  "Sum \<Rightarrow> nat \<Rightarrow> Location \<Rightarrow> string \<Rightarrow> nat \<Rightarrow> nat \<Rightarrow> nat list
     \<Rightarrow> (string \<times> Location \<times> Expr) list \<Rightarrow> dst_error + (string \<times> Location \<times> Expr) list" where
  "edit_defs sump c memberToken mname n outer [] acc = Inr acc"
| "edit_defs sump c memberToken mname n outer (inner # rest) acc =
     (let get = new_Expr memberToken (Get sump c inner);
          select =
            (if inner = outer then
               new_Expr memberToken
                 (App (new_Expr memberToken (VarRef (''fn'' @ mname)))
                    (new_Expr memberToken
                       (App (new_Expr memberToken (Lambda ''_'' get))
                            (new_Expr memberToken (VarRef ''_ x'')))))
             else get)
      in case slot_name n inner of
           Inl e \<Rightarrow> Inl e
         | Inr name \<Rightarrow>
             edit_defs sump c memberToken mname n outer rest (map_insert name (memberToken, select) acc))"

text \<open>Lines 1238-1246: the definitions of the map of a \<open>set\<close> accessor.\<close>

fun set_defs ::
  "Sum \<Rightarrow> nat \<Rightarrow> Location \<Rightarrow> string \<Rightarrow> nat \<Rightarrow> nat \<Rightarrow> nat list
     \<Rightarrow> (string \<times> Location \<times> Expr) list \<Rightarrow> dst_error + (string \<times> Location \<times> Expr) list" where
  "set_defs sump c memberToken mname n outer [] acc = Inr acc"
| "set_defs sump c memberToken mname n outer (inner # rest) acc =
     (case slot_name n inner of
        Inl e \<Rightarrow> Inl e
      | Inr name \<Rightarrow>
          set_defs sump c memberToken mname n outer rest
            (map_insert name
               (memberToken,
                if inner = outer then new_Expr memberToken (VarRef mname)
                else new_Expr memberToken (Get sump c inner))
               acc))"

text \<open>
  Lines 1203-1254: the three accessors of member \<open>i\<close>, where \<open>c\<close> is the
  constructor of the tuple, \<open>n\<close> the number of members and \<open>outer\<close> the counter of
  the loop.
\<close>

definition get_accessor :: "Sum \<Rightarrow> Constructor \<Rightarrow> string \<Rightarrow> nat \<Rightarrow> Definition" where
  "get_accessor sump c name i =
     (let mname = ast_tag (ast_args (c_ast c) ! i);
          memberToken = ast_region (ast_args (c_ast c) ! i);
          getfn = set_flag FLAG_SYNTHETIC
                    (new_Expr memberToken
                       (Lambda ''_'' (new_Expr memberToken (Get sump (c_index c) i))))
      in new_Definition (''get'' @ name @ mname) memberToken getfn)"

definition edit_accessor ::
  "Sum \<Rightarrow> Constructor \<Rightarrow> string \<Rightarrow> nat \<Rightarrow> nat \<Rightarrow> nat \<Rightarrow> dst_error + Definition" where
  "edit_accessor sump c name n outer i =
     (let mname = ast_tag (ast_args (c_ast c) ! i);
          memberToken = ast_region (ast_args (c_ast c) ! i)
      in case edit_defs sump (c_index c) memberToken mname n outer [0..<n] [] of
           Inl e \<Rightarrow> Inl e
         | Inr editdefs \<Rightarrow>
             (let editmap = new_Expr memberToken
                              (DefMap editdefs (new_Expr memberToken (Construct sump (c_index c))));
                  editfn = set_flag FLAG_SYNTHETIC
                             (new_Expr memberToken
                                (Lambda (''fn'' @ mname)
                                   (new_Expr memberToken (Lambda ''_ x'' editmap))))
              in Inr (new_Definition (''edit'' @ name @ mname) memberToken editfn)))"

definition set_accessor ::
  "Sum \<Rightarrow> Constructor \<Rightarrow> string \<Rightarrow> nat \<Rightarrow> nat \<Rightarrow> nat \<Rightarrow> dst_error + Definition" where
  "set_accessor sump c name n outer i =
     (let mname = ast_tag (ast_args (c_ast c) ! i);
          memberToken = ast_region (ast_args (c_ast c) ! i)
      in case set_defs sump (c_index c) memberToken mname n outer [0..<n] [] of
           Inl e \<Rightarrow> Inl e
         | Inr setdefs \<Rightarrow>
             (let setmap = new_Expr memberToken
                             (DefMap setdefs (new_Expr memberToken (Construct sump (c_index c))));
                  setfn = set_flag FLAG_SYNTHETIC
                            (new_Expr memberToken
                               (Lambda mname (new_Expr memberToken (Lambda ''_ x'' setmap))))
              in Inr (new_Definition (''set'' @ name @ mname) memberToken setfn)))"

text \<open>
  Lines 1196-1257: the loop over the members, \<open>i\<close> running through the indices given;
  \<open>members\<close> are the flags of the members. A member whose tag is not an upper-case
  identifier is skipped. The accessors are bound in the order get, edit, set; a
  \<open>std::length_error\<close> ends the run.
\<close>

fun tuple_accessors ::
  "frontend \<Rightarrow> Sum \<Rightarrow> Constructor \<Rightarrow> string \<Rightarrow> TopFlags list \<Rightarrow> nat list \<Rightarrow> nat \<Rightarrow> desugar
     \<Rightarrow> dst_error + desugar" where
  "tuple_accessors fe sump c name members [] outer st = Inr st"
| "tuple_accessors fe sump c name members (i # rest) outer st =
     (let globalb = globalf (members ! i);
          exportb = exportf (members ! i)
      in if lex_kind fe (ast_tag (ast_args (c_ast c) ! i)) \<noteq> UPPER
         then tuple_accessors fe sump c name members rest outer st
         else
           (let st1 = bind_def (get_accessor sump c name i) exportb globalb st
            in case edit_accessor sump c name (length members) outer i of
                 Inl e \<Rightarrow> Inl e
               | Inr editd \<Rightarrow>
                   (let st2 = bind_def editd exportb globalb st1
                    in case set_accessor sump c name (length members) outer i of
                         Inl e \<Rightarrow> Inl e
                       | Inr setd \<Rightarrow>
                           tuple_accessors fe sump c name members rest (Suc outer)
                             (bind_def setd exportb globalb st2))))"

text \<open>
  Lines 1160-1179: the flags of the declaration, its sum with the one constructor, the
  flags of the members, and the diagnostics of this part.
\<close>

definition tuple_sum ::
  "frontend \<Rightarrow> CSTElement \<Rightarrow> TopFlags \<times> Sum \<times> TopFlags list \<times> diagnostic list" where
  "tuple_sum fe topdef =
     (case parse_flags (firstChildNode topdef) of
        (fl, child) \<Rightarrow>
          (let head = parse_type fe child;
               sum0 = new_Sum (fst head);
               e0 = (if lex_kind fe (s_name sum0) \<noteq> UPPER
                     then [diag (elt_location child) (TupleNotUpper (s_name sum0))]
                     else [])
           in case tuple_elements fe (nextSiblingNode child) ([], [], []) of
                (members, args, errs) \<Rightarrow>
                  (fl,
                   addConstructor (set_region (s_region sum0) (new_AST (s_token sum0) (s_name sum0) args)) sum0,
                   members, snd head @ e0 @ errs)))"

definition parse_tuple :: "frontend \<Rightarrow> CSTElement \<Rightarrow> desugar \<Rightarrow> dst_error + desugar" where
  "parse_tuple fe topdef st =
     (case tuple_sum fe topdef of
        (fl, sump, members, errs) \<Rightarrow>
          (let name = s_name sump;
               st3 = st\<lparr>reports := reports st @ errs\<rparr>;
               c = last (s_members sump);
               construct = fold (\<lambda>a e. new_Expr (ast_token (c_ast c)) (Lambda (ast_tag a) e))
                             (rev (ast_args (c_ast c)))
                             (new_Expr (ast_token (c_ast c)) (Construct sump (c_index c)));
               st4 = bind_type (s_name sump) (s_token sump) (exportf fl) (globalf fl) st3;
               st5 = bind_def (new_Definition (ast_name (c_ast c)) (ast_token (c_ast c)) construct)
                       (exportf fl) (globalf fl) st4;
               st6 = (if pkg_name st5 = ''wake'' then check_special sump st5 else st5)
           in tuple_accessors fe sump c name members [0..<length members] 0 st6))"

subsection \<open>The top of a file\<close>

text \<open>
  Lines 1406-1435 of \<open>dst_top\<close>: a fresh package with one file, the loop over the
  top-level items, the default import and the default package name, which is the
  filename of the location of the file's \<open>DefMap\<close>, the location of the root. The lines that
  follow in the source qualify the symbols and merge the package into \<open>Top\<close>.
  The cases of \<open>CST_DEF\<close>, \<open>CST_TARGET\<close> and \<open>CST_PUBLISH\<close> are commented out in
  the source: the switch has no case for them.
\<close>

definition dst_init :: desugar where
  "dst_init =
     \<lparr>pkg_name = [], pkg_exports = no_symbols, pkg_types = [],
      file_defs = [], file_imports = no_imports, file_topics = [], file_local = no_symbols,
      globals = no_symbols, specials = [], reports = []\<rparr>"

definition top_item :: "frontend \<Rightarrow> CSTElement \<Rightarrow> desugar \<Rightarrow> dst_error + desugar" where
  "top_item fe topdef st =
     (if elt_id topdef = Some (NonTerminal CST_PACKAGE) then Inr (parse_package fe topdef st)
      else if elt_id topdef = Some (NonTerminal CST_IMPORT) then Inr (parse_import fe topdef st)
      else if elt_id topdef = Some (NonTerminal CST_EXPORT) then Inr (parse_export fe topdef st)
      else if elt_id topdef = Some (NonTerminal CST_TOPIC) then Inr (parse_topic fe topdef st)
      else if elt_id topdef = Some (NonTerminal CST_DATA) then Inr (parse_data fe topdef st)
      else if elt_id topdef = Some (NonTerminal CST_TUPLE) then parse_tuple fe topdef st
      else Inr st)"

function top_loop :: "frontend \<Rightarrow> CSTElement \<Rightarrow> desugar \<Rightarrow> dst_error + desugar" where
  "top_loop fe topdef st =
     (if elt_empty topdef then Inr st
      else case top_item fe topdef st of
             Inl e \<Rightarrow> Inl e
           | Inr st' \<Rightarrow> top_loop fe (nextSiblingNode topdef) st')"
  by pat_completeness auto
termination
  by (relation "measure (\<lambda>(fe, topdef, st). length topdef)")
     (auto simp: elt_empty_def nextSiblingNode_def
           intro: le_less_trans[OF length_dropWhile_le])

declare top_loop.simps [simp del]

definition dst_top :: "frontend \<Rightarrow> CSTElement \<Rightarrow> dst_error + desugar" where
  "dst_top fe root =
     (case top_loop fe (firstChildNode root) dst_init of
        Inl e \<Rightarrow> Inl e
      | Inr st \<Rightarrow>
          (let st1 = (if imports_empty (file_imports st)
                      then st\<lparr>file_imports := (file_imports st)
                                \<lparr>import_all := import_all (file_imports st) @ [''wake'']\<rparr>\<rparr>
                      else st);
               st2 = (if pkg_name st1 = []
                      then st1\<lparr>pkg_name := filename (elt_location root)\<rparr>
                      else st1)
           in Inr st2))"

text \<open>
  The top-level items of a file, the identifiers of its package declarations and the
  packages of its wildcard imports, in the order of the file.
\<close>

definition top_items :: "CSTElement \<Rightarrow> CSTElement list" where
  "top_items root = siblings (firstChildNode root)"

definition is_kind :: "cst_id \<Rightarrow> CSTElement \<Rightarrow> bool" where
  "is_kind k e = (elt_id e = Some (NonTerminal k))"

definition package_names :: "frontend \<Rightarrow> CSTElement \<Rightarrow> string list" where
  "package_names fe root =
     map (\<lambda>e. getIdentifier fe (firstChildNode e)) (filter (is_kind CST_PACKAGE) (top_items root))"

definition is_wildcard :: "frontend \<Rightarrow> CSTElement \<Rightarrow> bool" where
  "is_wildcard fe e =
     (case import_header fe e of (pkgname, kind, target, ia, child) \<Rightarrow> elt_empty child)"

definition wildcard_imports :: "frontend \<Rightarrow> CSTElement \<Rightarrow> string list" where
  "wildcard_imports fe root =
     map (\<lambda>e. fst (import_header fe e))
       (filter (\<lambda>e. is_kind CST_IMPORT e \<and> is_wildcard fe e) (top_items root))"

text \<open>A package name that \<open>parse_package\<close> accepts and that counts as set.\<close>

definition legal_package_name :: "string \<Rightarrow> bool" where
  "legal_package_name n = (n \<noteq> ''builtin'' \<and> n \<noteq> [])"

text \<open>The file without its top-level \<open>def\<close> items.\<close>

definition without_defs :: "CSTElement \<Rightarrow> CSTElement" where
  "without_defs root =
     (case root of
        [] \<Rightarrow> []
      | n # rest \<Rightarrow>
          CSTNode (n_id n) (n_location n) (n_content n)
            (filter (\<lambda>k. n_id k \<noteq> NonTerminal CST_DEF) (n_children n)) # rest)"

section \<open>Example files\<close>

text \<open>
  A front end for ASCII identifiers: \<open>relex_id\<close> leaves the bytes as they are, an
  identifier is upper-case or lower-case by its first letter and an operator otherwise,
  and \<open>unify\<close> has nothing to report.
\<close>

definition ascii_kind :: "string \<Rightarrow> id_kind" where
  "ascii_kind s =
     (case s of
        [] \<Rightarrow> LOWER
      | c # cs \<Rightarrow>
          if c \<in> set ''ABCDEFGHIJKLMNOPQRSTUVWXYZ'' then UPPER
          else if c \<in> set ''abcdefghijklmnopqrstuvwxyz_'' then LOWER
          else OPERATOR)"

definition ascii_frontend :: frontend where
  "ascii_frontend = \<lparr>relex_id = (\<lambda>s. s), lex_kind = ascii_kind, unify = (\<lambda>a. [])\<rparr>"

text \<open>Nodes of the file \<open>demo.wake\<close>: a token, an identifier, an operator, any other node.\<close>

definition at :: "nat \<Rightarrow> nat \<Rightarrow> Location" where
  "at a b = \<lparr>filename = ''demo.wake'', l_start = a, l_end = b\<rparr>"

definition leaf :: "token_id \<Rightarrow> nat \<Rightarrow> nat \<Rightarrow> string \<Rightarrow> CSTNode" where
  "leaf t a b s = CSTNode (Terminal t) (at a b) s []"

definition ident :: "nat \<Rightarrow> nat \<Rightarrow> string \<Rightarrow> CSTNode" where
  "ident a b s = CSTNode (NonTerminal CST_ID) (at a b) s [leaf (TOKEN_OTHER 0) a b s]"

definition oper :: "nat \<Rightarrow> nat \<Rightarrow> string \<Rightarrow> CSTNode" where
  "oper a b s = CSTNode (NonTerminal CST_OP) (at a b) s [leaf (TOKEN_OTHER 0) a b s]"

definition branch :: "cst_id \<Rightarrow> nat \<Rightarrow> nat \<Rightarrow> string \<Rightarrow> CSTNode list \<Rightarrow> CSTNode" where
  "branch k a b s kids = CSTNode (NonTerminal k) (at a b) s kids"

text \<open>\<open>package builtin\<close>\<close>

definition builtin_file :: CSTElement where
  "builtin_file =
     [branch CST_TOP 0 16 ''package builtin''
        [branch CST_PACKAGE 0 15 ''package builtin''
           [leaf (TOKEN_OTHER 0) 0 7 ''package'', ident 8 15 ''builtin'']]]"

text \<open>\<open>package p\<close>, \<open>from q import x\<close>\<close>

definition import_file :: CSTElement where
  "import_file =
     [branch CST_TOP 0 26 ''package p from q import x''
        [branch CST_PACKAGE 0 9 ''package p'' [leaf (TOKEN_OTHER 0) 0 7 ''package'', ident 8 9 ''p''],
         leaf TOKEN_NL 9 10 [CHR 0x0A],
         branch CST_IMPORT 10 25 ''from q import x''
           [leaf (TOKEN_OTHER 0) 10 14 ''from'', ident 15 16 ''q'',
            leaf (TOKEN_OTHER 0) 17 23 ''import'',
            branch CST_IDEQ 24 25 ''x'' [ident 24 25 ''x'']]]]"

text \<open>\<open>def f x = x\<close>\<close>

definition def_file :: CSTElement where
  "def_file =
     [branch CST_TOP 0 12 ''def f x = x''
        [branch CST_DEF 0 11 ''def f x = x''
           [leaf TOKEN_KW_DEF 0 3 ''def'',
            branch CST_APP 4 7 ''f x'' [ident 4 5 ''f'', ident 6 7 ''x''],
            leaf (TOKEN_OTHER 0) 8 9 ''='', ident 10 11 ''x'']]]"

text \<open>\<open>data Maybe a = Some a | None\<close>\<close>

definition maybe_data :: CSTElement where
  "maybe_data =
     [branch CST_DATA 0 28 ''data Maybe a = Some a | None''
        [leaf (TOKEN_OTHER 0) 0 4 ''data'',
         branch CST_APP 5 12 ''Maybe a'' [ident 5 10 ''Maybe'', ident 11 12 ''a''],
         leaf (TOKEN_OTHER 0) 13 14 ''='',
         branch CST_APP 15 21 ''Some a'' [ident 15 19 ''Some'', ident 20 21 ''a''],
         leaf (TOKEN_OTHER 0) 22 23 ''|'',
         ident 24 28 ''None'']]"

text \<open>\<open>data T = B | B x y\<close>\<close>

definition dup_data :: CSTElement where
  "dup_data =
     [branch CST_DATA 0 18 ''data T = B | B x y''
        [leaf (TOKEN_OTHER 0) 0 4 ''data'', ident 5 6 ''T'', leaf (TOKEN_OTHER 0) 7 8 ''='',
         ident 9 10 ''B'',
         leaf (TOKEN_OTHER 0) 11 12 ''|'',
         branch CST_APP 13 18 ''B x y''
           [branch CST_APP 13 16 ''B x'' [ident 13 14 ''B'', ident 15 16 ''x''],
            ident 17 18 ''y'']]]"

text \<open>A member \<open>F: Integer\<close> of a tuple, and the same with the flag \<open>export\<close>\<close>

definition tuple_member :: "nat \<Rightarrow> string \<Rightarrow> CSTNode" where
  "tuple_member a tag =
     branch CST_TUPLE_ELT a (a + 10) (tag @ '': Integer'')
       [branch CST_BINARY a (a + 10) (tag @ '': Integer'')
          [ident a (a + 1) tag, oper (a + 1) (a + 2) '':'', ident (a + 3) (a + 10) ''Integer'']]"

definition exported_member :: "nat \<Rightarrow> string \<Rightarrow> CSTNode" where
  "exported_member a tag =
     branch CST_TUPLE_ELT a (a + 17) (''export '' @ tag @ '': Integer'')
       [branch CST_FLAG_EXPORT a (a + 6) ''export'' [leaf (TOKEN_OTHER 0) a (a + 6) ''export''],
        branch CST_BINARY (a + 7) (a + 17) (tag @ '': Integer'')
          [ident (a + 7) (a + 8) tag, oper (a + 8) (a + 9) '':'',
           ident (a + 10) (a + 17) ''Integer'']]"

text \<open>\<open>tuple Point = X: Integer | export Y: Integer\<close>\<close>

definition flagged_tuple :: CSTElement where
  "flagged_tuple =
     [branch CST_TUPLE 0 44 ''tuple Point = X: Integer | export Y: Integer''
        [leaf (TOKEN_OTHER 0) 0 5 ''tuple'', ident 6 11 ''Point'', leaf (TOKEN_OTHER 0) 12 13 ''='',
         tuple_member 14 ''X'', leaf (TOKEN_OTHER 0) 25 26 ''|'', exported_member 27 ''Y'']]"

text \<open>\<open>tuple Point = x: Integer\<close>\<close>

definition lower_tuple :: CSTElement where
  "lower_tuple =
     [branch CST_TUPLE 0 24 ''tuple Point = x: Integer''
        [leaf (TOKEN_OTHER 0) 0 5 ''tuple'', ident 6 11 ''Point'', leaf (TOKEN_OTHER 0) 12 13 ''='',
         tuple_member 14 ''x'']]"






text \<open>The names of the three accessors of member \<open>F\<close> of tuple \<open>T\<close>.\<close>

definition accessor_names :: "string \<Rightarrow> string \<Rightarrow> string list" where
  "accessor_names T F = [''get'' @ T @ F, ''edit'' @ T @ F, ''set'' @ T @ F]"

text \<open>The names bound in the file's definitions, in the order of binding.\<close>

definition bound_names :: "desugar \<Rightarrow> string list" where
  "bound_names st = map fst (file_defs st)"

section \<open>Notions used in the properties\<close>

text \<open>What every step of the desugarer keeps: the diagnostics already reported.\<close>

definition keeps_reports :: "desugar \<Rightarrow> desugar \<Rightarrow> bool" where
  "keeps_reports st st' = (set (reports st) \<subseteq> set (reports st'))"

text \<open>What is known of an accessor: its name, its location, and the flag of its body.\<close>

definition is_accessor :: "string \<Rightarrow> Location \<Rightarrow> Definition \<Rightarrow> bool" where
  "is_accessor nm loc d =
     (df_name d = nm \<and> df_location d = loc \<and> df_typeVars d = [] \<and>
      FLAG_SYNTHETIC \<in> flags (df_body d))"

text \<open>The three tables at a name: the file's definitions, the exports, the globals.\<close>

definition same_at :: "string \<Rightarrow> desugar \<Rightarrow> desugar \<Rightarrow> bool" where
  "same_at n st st' =
     (map_of (file_defs st') n = map_of (file_defs st) n \<and>
      map_of (defs (pkg_exports st')) n = map_of (defs (pkg_exports st)) n \<and>
      map_of (defs (globals st')) n = map_of (defs (globals st)) n)"

definition stored :: "Definition \<Rightarrow> DefValue" where
  "stored d = \<lparr>dv_location = df_location d, dv_body = df_body d, dv_typeVars = df_typeVars d\<rparr>"

definition accessor_at :: "string \<Rightarrow> Location \<Rightarrow> bool \<Rightarrow> bool \<Rightarrow> desugar \<Rightarrow> desugar \<Rightarrow> bool" where
  "accessor_at nm loc e g st st' =
     ((\<exists>v. map_of (file_defs st') nm = Some v \<and> dv_location v = loc \<and>
            FLAG_SYNTHETIC \<in> flags (dv_body v)) \<and>
      (map_of (defs (pkg_exports st')) nm \<noteq> None) = (e \<or> map_of (defs (pkg_exports st)) nm \<noteq> None) \<and>
      (map_of (defs (globals st')) nm \<noteq> None) = (g \<or> map_of (defs (globals st)) nm \<noteq> None))"

text \<open>
  A declaration as the tree has it. An item (a \<open>data\<close> or \<open>tuple\<close> declaration, a
  member of a tuple) starts with the optional flag nodes \<open>global\<close> and \<open>export\<close>, in
  this order; what it declares is the node after them. The clauses of a declaration
  (the constructors of a \<open>data\<close>, the members of a \<open>tuple\<close>) are the nodes after its
  head.
\<close>

definition marked_global :: "CSTElement \<Rightarrow> bool" where
  "marked_global item = (elt_id (firstChildNode item) = Some (NonTerminal CST_FLAG_GLOBAL))"

definition after_global :: "CSTElement \<Rightarrow> CSTElement" where
  "after_global item =
     (if marked_global item then nextSiblingNode (firstChildNode item) else firstChildNode item)"

definition marked_export :: "CSTElement \<Rightarrow> bool" where
  "marked_export item = (elt_id (after_global item) = Some (NonTerminal CST_FLAG_EXPORT))"

definition declared :: "CSTElement \<Rightarrow> CSTElement" where
  "declared item =
     (if marked_export item then nextSiblingNode (after_global item) else after_global item)"

definition clauses :: "CSTElement \<Rightarrow> CSTElement list" where
  "clauses topdef = siblings (nextSiblingNode (declared topdef))"

text \<open>
  The sum of a \<open>data\<close> declaration: it has the name, the token, the region and the
  argument names of the type of the head, and one constructor for each clause, in the
  order of the clauses and numbered from 0, which is the type of the clause.
\<close>

definition numbered :: "frontend \<Rightarrow> nat \<times> CSTElement \<Rightarrow> Constructor" where
  "numbered fe kc = \<lparr>c_ast = fst (parse_type fe (snd kc)), c_index = fst kc, c_scoped = False\<rparr>"

definition declared_sum :: "frontend \<Rightarrow> CSTElement \<Rightarrow> Sum" where
  "declared_sum fe topdef =
     \<lparr>s_name = ast_name (fst (parse_type fe (declared topdef))),
      s_token = ast_token (fst (parse_type fe (declared topdef))),
      s_region = ast_region (fst (parse_type fe (declared topdef))),
      s_args = map ast_name (ast_args (fst (parse_type fe (declared topdef)))),
      s_members = map (numbered fe) (enumerate 0 (clauses topdef)),
      s_scoped = False\<rparr>"











text \<open>
  The type of a member of a tuple, and the sum of a \<open>tuple\<close> declaration: it has the
  name, the token, the region and the argument names of the type of the head, and one
  constructor, numbered 0, of the same name, token and region, whose arguments are the
  types of the members in order.
\<close>

definition member_type :: "frontend \<Rightarrow> CSTElement \<Rightarrow> AST" where
  "member_type fe m = fst (parse_type fe (declared m))"

definition declared_tuple :: "frontend \<Rightarrow> CSTElement \<Rightarrow> Sum" where
  "declared_tuple fe topdef =
     \<lparr>s_name = ast_name (fst (parse_type fe (declared topdef))),
      s_token = ast_token (fst (parse_type fe (declared topdef))),
      s_region = ast_region (fst (parse_type fe (declared topdef))),
      s_args = map ast_name (ast_args (fst (parse_type fe (declared topdef)))),
      s_members =
        [\<lparr>c_ast = AST (ast_token (fst (parse_type fe (declared topdef))))
                     (ast_region (fst (parse_type fe (declared topdef))))
                     (ast_name (fst (parse_type fe (declared topdef)))) [] None
                     (map (member_type fe) (clauses topdef)),
          c_index = 0, c_scoped = False\<rparr>],
      s_scoped = False\<rparr>"
section \<open>Properties of the offside processing\<close>

















lemma dedent_loop_token:
  "dedent_loop g newdent st = Inr st' \<Longrightarrow> token st' = token st"
proof (induction g newdent st rule: dedent_loop.induct)
  case (1 g newdent st)
  show ?case
  proof (cases "take (length (indent st)) newdent \<noteq> indent st")
    case False
    then show ?thesis using "1.prems" by (simp add: dedent_loop.simps[of g newdent st])
  next
    case True
    show ?thesis
    proof (cases "indent_stack st")
      case Nil
      then show ?thesis using True "1.prems" by (simp add: dedent_loop.simps[of g newdent st])
    next
      case (Cons b rest)
      have "dedent_loop g newdent
              ((feed g TOKEN_DEDENT (tindent st) st)\<lparr>indent := resize b (indent st), indent_stack := rest\<rparr>) = Inr st'"
        using "1.prems" True Cons by (simp add: dedent_loop.simps[of g newdent st])
      from "1.IH"[OF True Cons this] show ?thesis by (simp add: feed_def)
    qed
  qed
qed

lemma reconcile_token: "reconcile g fc st = Inr st' \<Longrightarrow> token st' = token st"
  by (auto simp: reconcile_def Let_def feed_def split: if_splits sum.splits dest!: dedent_loop_token)

lemma offside_token: "offside g fc st = Inr (fl, st') \<Longrightarrow> token st' = token st"
  by (auto simp: offside_def case_nl_ws_def split: fsm_state.splits if_splits sum.splits
           dest!: reconcile_token)

lemma flush_dedents_token: "token (flush_dedents g st) = token st"
proof (induction g st rule: flush_dedents.induct)
  case (1 g st)
  show ?case
  proof (cases "indent_stack st = []")
    case True
    then show ?thesis by (simp add: flush_dedents.simps[of g st])
  next
    case False
    from "1.IH"[OF False] show ?thesis using False
      by (simp add: flush_dedents.simps[of g st] feed_def)
  qed
qed

lemma on_token_token: "on_token g fc st = Inr st' \<Longrightarrow> token st' = token st"
  by (auto simp: on_token_def at_eof_def Let_def feed_def flush_dedents_token
           split: sum.splits flow.splits if_splits dest!: offside_token)

text \<open>
  C5. The lexer entry point of an iteration is chosen from the next byte and, only when
  that byte is a closing brace, from the parser's answers for \<open>TOKEN_STR_CLOSE\<close> and
  \<open>TOKEN_REG_CLOSE\<close>: \<open>lex_dstr\<close> when the first is shifted, else \<open>lex_rstr\<close> when
  the second is, else \<open>lex_wake\<close>. For any other byte it is \<open>lex_wake\<close>, whatever the
  state of the parser. The token so lexed is the token of the iteration.
\<close>

theorem lexer_entry_point:
  "(byte_at fc (t_end (token st)) = CHR ''}'' \<and> ParseShifts g (parser st) TOKEN_STR_CLOSE \<longrightarrow>
      token (lex_step g fc st) = lex_dstr g fc (t_end (token st))) \<and>
   (byte_at fc (t_end (token st)) = CHR ''}'' \<and> \<not> ParseShifts g (parser st) TOKEN_STR_CLOSE \<and>
    ParseShifts g (parser st) TOKEN_REG_CLOSE \<longrightarrow>
      token (lex_step g fc st) = lex_rstr g fc (t_end (token st))) \<and>
   (byte_at fc (t_end (token st)) = CHR ''}'' \<and> \<not> ParseShifts g (parser st) TOKEN_STR_CLOSE \<and>
    \<not> ParseShifts g (parser st) TOKEN_REG_CLOSE \<longrightarrow>
      token (lex_step g fc st) = lex_wake g fc (t_end (token st))) \<and>
   (byte_at fc (t_end (token st)) \<noteq> CHR ''}'' \<longrightarrow>
      token (lex_step g fc st) = lex_wake g fc (t_end (token st)) \<and>
      token (lex_step g fc (st\<lparr>parser := p'\<rparr>)) = token (lex_step g fc st)) \<and>
   (\<forall>st'. ingest_body g fc st = Inr st' \<longrightarrow> token st' = token (lex_step g fc st))"
proof -
  have "\<forall>st'. ingest_body g fc st = Inr st' \<longrightarrow> token st' = token (lex_step g fc st)"
    by (auto simp: ingest_body_def dest: on_token_token)
  then show ?thesis
    by (simp add: lex_step_def got_token_def next_token_def Let_def)
qed

theorem lexer_entry_point_witness:
  "token (lex_step byte_grammar ''a}'' ((ingest_init byte_grammar)\<lparr>parser := [TOKEN_OTHER 0], token := \<lparr>t_id = TOKEN_OTHER 0, t_end = 1, t_ok = True\<rparr>\<rparr>))
     = \<lparr>t_id = TOKEN_STR_CLOSE, t_end = 2, t_ok = True\<rparr> \<and>
   token (lex_step byte_grammar ''}'' (ingest_init byte_grammar))
     = \<lparr>t_id = TOKEN_OTHER 0, t_end = 1, t_ok = True\<rparr> \<and>
   token (lex_step byte_grammar ''a}'' (ingest_init byte_grammar))
     = \<lparr>t_id = TOKEN_OTHER 0, t_end = 1, t_ok = True\<rparr> \<and>
   (\<exists>st'. ingest_body byte_grammar ''a}'' (ingest_init byte_grammar) = Inr st' \<and>
          token st' = \<lparr>t_id = TOKEN_OTHER 0, t_end = 1, t_ok = True\<rparr>)"
proof -
  let ?s1 = "(ingest_init byte_grammar)\<lparr>parser := [TOKEN_OTHER 0], token := \<lparr>t_id = TOKEN_OTHER 0, t_end = 1, t_ok = True\<rparr>\<rparr>"
  let ?s0 = "ingest_init byte_grammar"
  have a: "byte_at ''a}'' (t_end (token ?s1)) = CHR ''}'' \<and> ParseShifts byte_grammar (parser ?s1) TOKEN_STR_CLOSE"
    by (simp add: byte_at_def byte_grammar_def ingest_init_def)
  have b: "byte_at ''}'' (t_end (token ?s0)) = CHR ''}'' \<and> \<not> ParseShifts byte_grammar (parser ?s0) TOKEN_STR_CLOSE
            \<and> \<not> ParseShifts byte_grammar (parser ?s0) TOKEN_REG_CLOSE"
    by (simp add: byte_at_def byte_grammar_def ingest_init_def)
  have c: "byte_at ''a}'' (t_end (token ?s0)) \<noteq> CHR ''}''"
    by (simp add: byte_at_def byte_grammar_def ingest_init_def)
  have d: "\<exists>st'. ingest_body byte_grammar ''a}'' ?s0 = Inr st'"
    by (simp add: ingest_body_def lex_step_def got_token_def next_token_def Let_def byte_at_def
                  byte_grammar_def byte_lexer_def ingest_init_def on_token_def offside_def at_eof_def feed_def)
  show ?thesis
    using lexer_entry_point[of "''a}''" ?s1 byte_grammar] lexer_entry_point[of "''}''" ?s0 byte_grammar]
          lexer_entry_point[of "''a}''" ?s0 byte_grammar] a b c d
    by (auto simp: byte_grammar_def byte_lexer_def ingest_init_def)
qed

text \<open>
  C9. An empty line (a newline, optional blanks, another newline) and a comment-only
  line (a newline, optional blanks, a comment) feed nothing to the parser, so no
  \<open>TOKEN_INDENT\<close> and no \<open>TOKEN_DEDENT\<close>, and leave the indent string and the indent
  stack as they were, in whatever state the machine is when the line starts.
\<close>

theorem blank_lines_keep_indentation:
  assumes "t_id n = TOKEN_NL" and "t_id w = TOKEN_WS"
    and "t_id x = TOKEN_NL \<or> t_id x = TOKEN_COMMENT"
    and "line = [n, w, x] \<or> line = [n, x]"
  shows "\<exists>st'. on_tokens g fc line st = Inr st' \<and> same_indentation st st'"
proof -
  have 1: "\<exists>s1. on_token g fc (got_token n st) = Inr s1 \<and> same_indentation st s1 \<and> state s1 = STATE_NL"
    using assms(1)
    by (cases "state st")
       (simp_all add: on_token_def offside_def case_nl_ws_def got_token_def Let_def same_indentation_def)
  then obtain s1 where s1: "on_token g fc (got_token n st) = Inr s1" "same_indentation st s1" "state s1 = STATE_NL"
    by blast
  have 2: "\<exists>s2. on_token g fc (got_token w s1) = Inr s2 \<and> same_indentation st s2 \<and> state s2 = STATE_NL_WS"
    using assms(2) s1
    by (simp add: on_token_def offside_def got_token_def Let_def same_indentation_def)
  then obtain s2 where s2: "on_token g fc (got_token w s1) = Inr s2" "same_indentation st s2" "state s2 = STATE_NL_WS"
    by blast
  have 3: "\<exists>s3. on_token g fc (got_token x s2) = Inr s3 \<and> same_indentation st s3"
    using assms(3) s2
    by (auto simp add: on_token_def offside_def case_nl_ws_def got_token_def Let_def same_indentation_def)
  have 4: "\<exists>s3. on_token g fc (got_token x s1) = Inr s3 \<and> same_indentation st s3"
    using assms(3) s1
    by (auto simp add: on_token_def offside_def case_nl_ws_def got_token_def Let_def same_indentation_def)
  from assms(4) show ?thesis
  proof
    assume "line = [n, w, x]"
    then show ?thesis using s1 s2 3 by auto
  next
    assume "line = [n, x]"
    then show ?thesis using s1 4 by auto
  qed
qed

theorem blank_lines_keep_indentation_witness:
  "\<exists>st'. on_tokens byte_grammar ''a''
           [\<lparr>t_id = TOKEN_NL, t_end = 1, t_ok = True\<rparr>, \<lparr>t_id = TOKEN_WS, t_end = 3, t_ok = True\<rparr>,
            \<lparr>t_id = TOKEN_COMMENT, t_end = 4, t_ok = True\<rparr>]
           (ingest_init byte_grammar) = Inr st' \<and>
         same_indentation (ingest_init byte_grammar) st'"
  using blank_lines_keep_indentation[of "\<lparr>t_id = TOKEN_NL, t_end = 1, t_ok = True\<rparr>"
          "\<lparr>t_id = TOKEN_WS, t_end = 3, t_ok = True\<rparr>" "\<lparr>t_id = TOKEN_COMMENT, t_end = 4, t_ok = True\<rparr>"
          "[\<lparr>t_id = TOKEN_NL, t_end = 1, t_ok = True\<rparr>, \<lparr>t_id = TOKEN_WS, t_end = 3, t_ok = True\<rparr>,
            \<lparr>t_id = TOKEN_COMMENT, t_end = 4, t_ok = True\<rparr>]" byte_grammar "''a''" "ingest_init byte_grammar"]
  by simp


section \<open>Properties of the desugarer\<close>


lemma map_of_snoc:
  "map_of (m @ [(k, v)]) k' =
     (case map_of m k' of Some x \<Rightarrow> Some x | None \<Rightarrow> if k' = k then Some v else None)"
  by (simp add: map_add_def split: option.splits)

declare map_of_append [simp del]

lemma bind_global_frame [simp]:
  "file_defs (bind_global d g st) = file_defs st"
  "reports (bind_global d g st) = reports st"
  "pkg_name (bind_global d g st) = pkg_name st"
  "file_imports (bind_global d g st) = file_imports st"
  "pkg_exports (bind_global d g st) = pkg_exports st"
  by (simp_all add: bind_global_def)

lemma bind_export_frame [simp]:
  "file_defs (bind_export d e st) = file_defs st"
  "reports (bind_export d e st) = reports st"
  "pkg_name (bind_export d e st) = pkg_name st"
  "file_imports (bind_export d e st) = file_imports st"
  "globals (bind_export d e st) = globals st"
  by (simp_all add: bind_export_def)

lemma bind_def_fresh:
  assumes "df_name d \<noteq> ''_''" and "map_of (file_defs st) (df_name d) = None"
  shows "file_defs (bind_def d e g st) =
           file_defs st @ [(df_name d, \<lparr>dv_location = df_location d, dv_body = df_body d,
                                         dv_typeVars = df_typeVars d\<rparr>)]"
    and "reports (bind_def d e g st) = reports st"
  using assms by (simp_all add: bind_def_def Let_def)

lemma bind_def_bound:
  assumes "df_name d \<noteq> ''_''" and "map_of (file_defs st) (df_name d) = Some first"
  shows "file_defs (bind_def d e g st) = file_defs st"
    and "reports (bind_def d e g st) =
           reports st @ [\<lparr>d_location = location (df_body d),
                          d_message = PreviouslyDefined ''definition'' (df_name d)
                                        (location (dv_body first))\<rparr>]"
  using assms by (simp_all add: bind_def_def Let_def report_def)

lemma digit_inj:
  assumes "a < 10" "b < 10" "''0123456789'' ! a = ''0123456789'' ! b"
  shows "a = b"
proof -
  have d: "distinct ''0123456789''" by simp
  have "a < length ''0123456789''" "b < length ''0123456789''" using assms by simp_all
  then show ?thesis using assms(3) d nth_eq_iff_index_eq by blast
qed

lemma to_string_nonempty: "to_string n \<noteq> []"
  by (subst to_string.simps) simp

lemma to_string_one: "n < 10 \<Longrightarrow> length (to_string n) = 1"
  by (subst to_string.simps) simp

lemma to_string_more: "\<not> n < 10 \<Longrightarrow> 1 < length (to_string n)"
  using to_string_nonempty[of "n div 10"]
  by (subst to_string.simps) (simp add: Suc_lessI)

lemma to_string_inj: "to_string n = to_string m \<Longrightarrow> n = m"
proof (induction n arbitrary: m rule: to_string.induct)
  case (1 n)
  show ?case
  proof (cases "n < 10")
    case True
    then have m: "m < 10"
      using 1(2) to_string_one[OF True] to_string_more[of m] by (cases "m < 10") auto
    have "''0123456789'' ! n = ''0123456789'' ! m"
      using 1(2) True m by (simp add: to_string.simps[of n] to_string.simps[of m])
    then show ?thesis using digit_inj True m by blast
  next
    case False
    then have m: "\<not> m < 10"
      using 1(2) to_string_more[OF False] to_string_one[of m] by (cases "m < 10") auto
    have e: "to_string (n div 10) @ [''0123456789'' ! (n mod 10)] =
             to_string (m div 10) @ [''0123456789'' ! (m mod 10)]"
      using 1(2) False m by (simp add: to_string.simps[of n] to_string.simps[of m])
    then have "to_string (n div 10) = to_string (m div 10)"
      and dg: "''0123456789'' ! (n mod 10) = ''0123456789'' ! (m mod 10)" by simp_all
    then have q: "n div 10 = m div 10" using 1(1)[OF False] by blast
    have r: "n mod 10 = m mod 10" using digit_inj[OF _ _ dg] by simp
    show ?thesis using q r by (metis div_mult_mod_eq)
  qed
qed

lemma bind_def_wild:
  assumes "df_name d = ''_''"
  shows "bind_def d e g st =
           bind_def (d\<lparr>df_name := ''_'' @ to_string (length (file_defs st)) @ '' _''\<rparr>) False False st"
  using assms by (simp add: bind_def_def Let_def bind_export_def bind_global_def split: option.splits)

lemma bind_def_wild_fresh:
  assumes "df_name d = ''_''"
    and "map_of (file_defs st) (''_'' @ to_string (length (file_defs st)) @ '' _'') = None"
  shows "file_defs (bind_def d e g st) =
           file_defs st @ [(''_'' @ to_string (length (file_defs st)) @ '' _'',
                            \<lparr>dv_location = df_location d, dv_body = df_body d,
                              dv_typeVars = df_typeVars d\<rparr>)]"
    and "reports (bind_def d e g st) = reports st"
    and "pkg_exports (bind_def d e g st) = pkg_exports st"
    and "globals (bind_def d e g st) = globals st"
  using assms by (simp_all add: bind_def_def Let_def bind_export_def bind_global_def)

lemma bind_def_wild_twice:
  assumes "df_name d1 = ''_''" "df_name d2 = ''_''"
    and "map_of (file_defs st) (''_'' @ to_string (length (file_defs st)) @ '' _'') = None"
    and "map_of (file_defs st) (''_'' @ to_string (Suc (length (file_defs st))) @ '' _'') = None"
  shows "file_defs (bind_def d2 e2 g2 (bind_def d1 e1 g1 st)) =
           file_defs st @
             [(''_'' @ to_string (length (file_defs st)) @ '' _'',
               \<lparr>dv_location = df_location d1, dv_body = df_body d1, dv_typeVars = df_typeVars d1\<rparr>),
              (''_'' @ to_string (Suc (length (file_defs st))) @ '' _'',
               \<lparr>dv_location = df_location d2, dv_body = df_body d2, dv_typeVars = df_typeVars d2\<rparr>)]"
    and "reports (bind_def d2 e2 g2 (bind_def d1 e1 g1 st)) = reports st"
proof -
  let ?n = "length (file_defs st)"
  let ?s1 = "bind_def d1 e1 g1 st"
  note f1 = bind_def_wild_fresh[OF assms(1) assms(3), of e1 g1]
  have l: "length (file_defs ?s1) = Suc ?n" using f1(1) by simp
  have ne: "to_string (Suc ?n) \<noteq> to_string ?n" using to_string_inj[of "Suc ?n" ?n] by auto
  have m: "map_of (file_defs ?s1) (''_'' @ to_string (length (file_defs ?s1)) @ '' _'') = None"
    using assms(4) ne unfolding l f1(1) by (simp add: map_of_snoc)
  note f2 = bind_def_wild_fresh[OF assms(2) m, of e2 g2]
  show "file_defs (bind_def d2 e2 g2 ?s1) =
           file_defs st @
             [(''_'' @ to_string ?n @ '' _'',
               \<lparr>dv_location = df_location d1, dv_body = df_body d1, dv_typeVars = df_typeVars d1\<rparr>),
              (''_'' @ to_string (Suc ?n) @ '' _'',
               \<lparr>dv_location = df_location d2, dv_body = df_body d2, dv_typeVars = df_typeVars d2\<rparr>)]"
    using f2(1) unfolding l f1(1) by simp
  show "reports (bind_def d2 e2 g2 ?s1) = reports st"
    using f2(2) f1(2) by simp
qed

text \<open>
  C7 (as amended). For a name other than the wildcard \<open>_\<close>: binding a name that the
  map already holds leaves the definitions as they are and reports one error, at the
  location of the body of the new definition, naming the location of the body of the
  one that is kept. So of two definitions of one name bound one after the other, the
  first is the one in the map, whichever of the two it is. A definition named \<open>_\<close>
  is bound as the definition named \<open>_N _\<close>, \<open>N\<close> the number of definitions in the
  map, without export and without global. When the map does not hold \<open>_N _\<close>, it is
  added under that name and nothing is reported. So two definitions named \<open>_\<close> bound
  one after the other, on a map that holds neither \<open>_N _\<close> nor \<open>_N+1 _\<close>, are both
  kept and nothing is reported.
\<close>

theorem bind_def_first_wins:
  "(df_name d \<noteq> ''_'' \<and> map_of (file_defs st) (df_name d) = Some first \<longrightarrow>
      file_defs (bind_def d e g st) = file_defs st \<and>
      reports (bind_def d e g st) =
        reports st @ [\<lparr>d_location = location (df_body d),
                       d_message = PreviouslyDefined ''definition'' (df_name d)
                                     (location (dv_body first))\<rparr>]) \<and>
   (df_name d1 \<noteq> ''_'' \<and> df_name d2 = df_name d1 \<and> map_of (file_defs s) (df_name d1) = None \<longrightarrow>
      map_of (file_defs (bind_def d2 e2 g2 (bind_def d1 e1 g1 s))) (df_name d1) =
        Some \<lparr>dv_location = df_location d1, dv_body = df_body d1, dv_typeVars = df_typeVars d1\<rparr> \<and>
      reports (bind_def d2 e2 g2 (bind_def d1 e1 g1 s)) =
        reports s @ [\<lparr>d_location = location (df_body d2),
                      d_message = PreviouslyDefined ''definition'' (df_name d1)
                                    (location (df_body d1))\<rparr>]) \<and>
   (df_name w = ''_'' \<longrightarrow>
      bind_def w e3 g3 t =
        bind_def (w\<lparr>df_name := ''_'' @ to_string (length (file_defs t)) @ '' _''\<rparr>) False False t) \<and>
   (df_name w = ''_'' \<and>
    map_of (file_defs t) (''_'' @ to_string (length (file_defs t)) @ '' _'') = None \<longrightarrow>
      file_defs (bind_def w e3 g3 t) =
        file_defs t @ [(''_'' @ to_string (length (file_defs t)) @ '' _'',
                        \<lparr>dv_location = df_location w, dv_body = df_body w,
                          dv_typeVars = df_typeVars w\<rparr>)] \<and>
      reports (bind_def w e3 g3 t) = reports t \<and>
      pkg_exports (bind_def w e3 g3 t) = pkg_exports t \<and>
      globals (bind_def w e3 g3 t) = globals t) \<and>
   (df_name w1 = ''_'' \<and> df_name w2 = ''_'' \<and>
    map_of (file_defs u) (''_'' @ to_string (length (file_defs u)) @ '' _'') = None \<and>
    map_of (file_defs u) (''_'' @ to_string (Suc (length (file_defs u))) @ '' _'') = None \<longrightarrow>
      file_defs (bind_def w2 e5 g5 (bind_def w1 e4 g4 u)) =
        file_defs u @
          [(''_'' @ to_string (length (file_defs u)) @ '' _'',
            \<lparr>dv_location = df_location w1, dv_body = df_body w1, dv_typeVars = df_typeVars w1\<rparr>),
           (''_'' @ to_string (Suc (length (file_defs u))) @ '' _'',
            \<lparr>dv_location = df_location w2, dv_body = df_body w2, dv_typeVars = df_typeVars w2\<rparr>)] \<and>
      reports (bind_def w2 e5 g5 (bind_def w1 e4 g4 u)) = reports u)"
proof (intro conjI impI)
  assume a: "df_name d \<noteq> ''_'' \<and> map_of (file_defs st) (df_name d) = Some first"
  then show "file_defs (bind_def d e g st) = file_defs st"
    by (simp add: bind_def_bound(1))
  from a show "reports (bind_def d e g st) =
        reports st @ [\<lparr>d_location = location (df_body d),
                       d_message = PreviouslyDefined ''definition'' (df_name d)
                                     (location (dv_body first))\<rparr>]"
    by (simp add: bind_def_bound(2))
next
  assume a: "df_name d1 \<noteq> ''_'' \<and> df_name d2 = df_name d1 \<and> map_of (file_defs s) (df_name d1) = None"
  let ?v = "\<lparr>dv_location = df_location d1, dv_body = df_body d1, dv_typeVars = df_typeVars d1\<rparr>"
  let ?s1 = "bind_def d1 e1 g1 s"
  have f1: "file_defs ?s1 = file_defs s @ [(df_name d1, ?v)]" and r1: "reports ?s1 = reports s"
    using a by (simp_all add: bind_def_fresh)
  have m1: "map_of (file_defs ?s1) (df_name d2) = Some ?v"
    using a f1 by (simp add: map_of_snoc)
  have n2: "df_name d2 \<noteq> ''_''" using a by simp
  show "map_of (file_defs (bind_def d2 e2 g2 ?s1)) (df_name d1) = Some ?v"
    using bind_def_bound(1)[OF n2 m1] m1 a by simp
  show "reports (bind_def d2 e2 g2 ?s1) =
        reports s @ [\<lparr>d_location = location (df_body d2),
                      d_message = PreviouslyDefined ''definition'' (df_name d1)
                                    (location (df_body d1))\<rparr>]"
    using bind_def_bound(2)[OF n2 m1] r1 a by simp
next
  assume "df_name w = ''_''"
  then show "bind_def w e3 g3 t =
        bind_def (w\<lparr>df_name := ''_'' @ to_string (length (file_defs t)) @ '' _''\<rparr>) False False t"
    by (rule bind_def_wild)
next
  assume a: "df_name w = ''_'' \<and>
    map_of (file_defs t) (''_'' @ to_string (length (file_defs t)) @ '' _'') = None"
  then have n: "df_name w = ''_''"
    and m: "map_of (file_defs t) (''_'' @ to_string (length (file_defs t)) @ '' _'') = None"
    by simp_all
  show "file_defs (bind_def w e3 g3 t) =
        file_defs t @ [(''_'' @ to_string (length (file_defs t)) @ '' _'',
                        \<lparr>dv_location = df_location w, dv_body = df_body w,
                          dv_typeVars = df_typeVars w\<rparr>)]"
    by (rule bind_def_wild_fresh(1)[OF n m])
  show "reports (bind_def w e3 g3 t) = reports t" by (rule bind_def_wild_fresh(2)[OF n m])
  show "pkg_exports (bind_def w e3 g3 t) = pkg_exports t" by (rule bind_def_wild_fresh(3)[OF n m])
  show "globals (bind_def w e3 g3 t) = globals t" by (rule bind_def_wild_fresh(4)[OF n m])
next
  assume a: "df_name w1 = ''_'' \<and> df_name w2 = ''_'' \<and>
    map_of (file_defs u) (''_'' @ to_string (length (file_defs u)) @ '' _'') = None \<and>
    map_of (file_defs u) (''_'' @ to_string (Suc (length (file_defs u))) @ '' _'') = None"
  then have n1: "df_name w1 = ''_''" and n2: "df_name w2 = ''_''"
    and m1: "map_of (file_defs u) (''_'' @ to_string (length (file_defs u)) @ '' _'') = None"
    and m2: "map_of (file_defs u) (''_'' @ to_string (Suc (length (file_defs u))) @ '' _'') = None"
    by simp_all
  show "file_defs (bind_def w2 e5 g5 (bind_def w1 e4 g4 u)) =
        file_defs u @
          [(''_'' @ to_string (length (file_defs u)) @ '' _'',
            \<lparr>dv_location = df_location w1, dv_body = df_body w1, dv_typeVars = df_typeVars w1\<rparr>),
           (''_'' @ to_string (Suc (length (file_defs u))) @ '' _'',
            \<lparr>dv_location = df_location w2, dv_body = df_body w2, dv_typeVars = df_typeVars w2\<rparr>)]"
    by (rule bind_def_wild_twice(1)[OF n1 n2 m1 m2])
  show "reports (bind_def w2 e5 g5 (bind_def w1 e4 g4 u)) = reports u"
    by (rule bind_def_wild_twice(2)[OF n1 n2 m1 m2])
qed

lemma to_string_0: "to_string 0 = ''0''" by (simp add: to_string.simps)
lemma to_string_1: "to_string (Suc 0) = ''1''" by (simp add: to_string.simps)

theorem bind_def_wildcard_counterexample:
  "reports (bind_def (new_Definition ''_'' no_location (new_Expr no_location (VarRef ''y'')))
              False False
              (bind_def (new_Definition ''_'' no_location (new_Expr no_location (VarRef ''x'')))
                 False False dst_init)) = [] \<and>
   map fst (file_defs (bind_def (new_Definition ''_'' no_location (new_Expr no_location (VarRef ''y'')))
              False False
              (bind_def (new_Definition ''_'' no_location (new_Expr no_location (VarRef ''x'')))
                 False False dst_init))) = [''_0 _'', ''_1 _'']"
  by (simp add: bind_def_def Let_def report_def new_Definition_def dst_init_def to_string_0 to_string_1)


section \<open>Frame properties of the desugarer\<close>

lemma report_frame [simp]:
  "pkg_name (report l m st) = pkg_name st"
  "file_imports (report l m st) = file_imports st"
  "file_defs (report l m st) = file_defs st"
  "pkg_exports (report l m st) = pkg_exports st"
  "globals (report l m st) = globals st"
  "reports (report l m st) = reports st @ [\<lparr>d_location = l, d_message = m\<rparr>]"
  by (simp_all add: report_def)

lemma keeps_reports_refl [simp]: "keeps_reports st st"
  by (simp add: keeps_reports_def)

lemma keeps_reports_trans: "keeps_reports a b \<Longrightarrow> keeps_reports b c \<Longrightarrow> keeps_reports a c"
  by (auto simp: keeps_reports_def)

lemma keeps_reports_report [simp]: "keeps_reports st (report l m st)"
  by (auto simp: keeps_reports_def)

lemma keeps_reports_append: "reports st' = reports st @ r \<Longrightarrow> keeps_reports st st'"
  by (auto simp: keeps_reports_def)

lemma bind_def_frame [simp]:
  "pkg_name (bind_def d e g st) = pkg_name st"
  "file_imports (bind_def d e g st) = file_imports st"
  by (simp_all add: bind_def_def Let_def split: option.splits)

lemma bind_def_keeps [simp]: "keeps_reports st (bind_def d e g st)"
  by (auto simp: bind_def_def Let_def keeps_reports_def split: option.splits)

lemma bind_type_frame [simp]:
  "pkg_name (bind_type n l e g st) = pkg_name st"
  "file_imports (bind_type n l e g st) = file_imports st"
  "file_defs (bind_type n l e g st) = file_defs st"
  by (simp_all add: bind_type_def Let_def split: option.splits)

lemma bind_type_keeps [simp]: "keeps_reports st (bind_type n l e g st)"
  by (auto simp: bind_type_def Let_def keeps_reports_def split: option.splits)

lemma check_special_frame [simp]:
  "pkg_name (check_special s st) = pkg_name st"
  "file_imports (check_special s st) = file_imports st"
  "file_defs (check_special s st) = file_defs st"
  "reports (check_special s st) = reports st"
  by (simp_all add: check_special_def)

lemma data_members_frame [simp]:
  "pkg_name (data_members sump e g cs st) = pkg_name st"
  "file_imports (data_members sump e g cs st) = file_imports st"
  by (induction cs arbitrary: st) simp_all

lemma data_members_keeps [simp]: "keeps_reports st (data_members sump e g cs st)"
proof (induction cs arbitrary: st)
  case Nil
  show ?case by simp
next
  case (Cons c cs)
  show ?case
    by (simp only: data_members.simps)
       (rule keeps_reports_trans[OF bind_def_keeps Cons.IH])
qed

lemma parse_data_frame [simp]:
  "pkg_name (parse_data fe topdef st) = pkg_name st"
  "file_imports (parse_data fe topdef st) = file_imports st"
  by (simp_all add: parse_data_def Let_def split: prod.splits)

lemma parse_data_keeps [simp]: "keeps_reports st (parse_data fe topdef st)"
proof -
  obtain fl sump errs where d: "data_sum fe topdef = (fl, sump, errs)"
    by (cases "data_sum fe topdef") auto
  let ?st3 = "st\<lparr>reports := reports st @ errs\<rparr>"
  let ?st4 = "bind_type (s_name sump) (s_token sump) (exportf fl) (globalf fl) ?st3"
  let ?st5 = "data_members sump (exportf fl) (globalf fl) (s_members sump) ?st4"
  have "keeps_reports st ?st3" by (simp add: keeps_reports_def)
  then have "keeps_reports st ?st5"
    by (blast intro: keeps_reports_trans bind_type_keeps data_members_keeps)
  then show ?thesis
    by (simp add: parse_data_def d Let_def keeps_reports_def)
qed


lemma tuple_accessors_frame:
  "tuple_accessors fe sump c name members is outer st = Inr st' \<Longrightarrow>
   pkg_name st' = pkg_name st \<and> file_imports st' = file_imports st \<and> keeps_reports st st'"
proof (induction "is" arbitrary: outer st)
  case Nil
  then show ?case by simp
next
  case (Cons i rest)
  show ?case
  proof (cases "lex_kind fe (ast_tag (ast_args (c_ast c) ! i)) \<noteq> UPPER")
    case True
    then show ?thesis using Cons.prems Cons.IH[of outer st] by (simp add: Let_def)
  next
    case False
    let ?e = "exportf (members ! i)" and ?g = "globalf (members ! i)"
    let ?st1 = "bind_def (get_accessor sump c name i) ?e ?g st"
    from False Cons.prems obtain editd setd where
      s3: "tuple_accessors fe sump c name members rest (Suc outer)
             (bind_def setd ?e ?g (bind_def editd ?e ?g ?st1)) = Inr st'"
      by (auto simp: Let_def split: sum.splits)
    have "keeps_reports st (bind_def setd ?e ?g (bind_def editd ?e ?g ?st1))"
      by (blast intro: keeps_reports_trans bind_def_keeps)
    with Cons.IH[OF s3] show ?thesis
      by (auto intro: keeps_reports_trans)
  qed
qed

lemma parse_tuple_frame:
  assumes "parse_tuple fe topdef st = Inr st'"
  shows "pkg_name st' = pkg_name st \<and> file_imports st' = file_imports st \<and> keeps_reports st st'"
proof -
  obtain fl sump members errs where d: "tuple_sum fe topdef = (fl, sump, members, errs)"
    by (cases "tuple_sum fe topdef") auto
  let ?c = "last (s_members sump)"
  let ?st3 = "st\<lparr>reports := reports st @ errs\<rparr>"
  let ?st4 = "bind_type (s_name sump) (s_token sump) (exportf fl) (globalf fl) ?st3"
  let ?construct = "fold (\<lambda>a e. new_Expr (ast_token (c_ast ?c)) (Lambda (ast_tag a) e))
                      (rev (ast_args (c_ast ?c)))
                      (new_Expr (ast_token (c_ast ?c)) (Construct sump (c_index ?c)))"
  let ?st5 = "bind_def (new_Definition (ast_name (c_ast ?c)) (ast_token (c_ast ?c)) ?construct)
                (exportf fl) (globalf fl) ?st4"
  let ?st6 = "if pkg_name ?st5 = ''wake'' then check_special sump ?st5 else ?st5"
  have t: "tuple_accessors fe sump ?c (s_name sump) members [0..<length members] 0 ?st6 = Inr st'"
    using assms by (simp add: parse_tuple_def d Let_def)
  have "keeps_reports st ?st3" by (simp add: keeps_reports_def)
  then have "keeps_reports st ?st5"
    by (blast intro: keeps_reports_trans bind_type_keeps bind_def_keeps)
  then have k6: "keeps_reports st ?st6" by (simp add: keeps_reports_def)
  have f6: "pkg_name ?st6 = pkg_name st" "file_imports ?st6 = file_imports st" by simp_all
  from tuple_accessors_frame[OF t] k6 f6 show ?thesis
    by (auto intro: keeps_reports_trans)
qed

lemma parse_topic_frame [simp]:
  "pkg_name (parse_topic fe topdef st) = pkg_name st"
  "file_imports (parse_topic fe topdef st) = file_imports st"
  by (simp_all add: parse_topic_def Let_def split: prod.splits option.splits)

lemma parse_topic_keeps [simp]: "keeps_reports st (parse_topic fe topdef st)"
  by (auto simp: parse_topic_def Let_def keeps_reports_def report_def split: prod.splits option.splits)

lemma export_item_frame [simp]:
  "pkg_name (export_item fe ia pkgname kind target child st) = pkg_name st"
  "file_imports (export_item fe ia pkgname kind target child st) = file_imports st"
  by (simp_all add: export_item_def Let_def split: option.splits)

lemma export_item_keeps [simp]: "keeps_reports st (export_item fe ia pkgname kind target child st)"
  by (auto simp: export_item_def Let_def keeps_reports_def report_def split: option.splits)

lemma export_loop_frame:
  "pkg_name (export_loop fe ia pkgname kind target child st) = pkg_name st \<and>
   file_imports (export_loop fe ia pkgname kind target child st) = file_imports st \<and>
   keeps_reports st (export_loop fe ia pkgname kind target child st)"
proof (induction fe ia pkgname kind target child st rule: export_loop.induct)
  case (1 fe ia pkgname kind target child st)
  show ?case
  proof (cases "elt_empty child")
    case True
    then show ?thesis by (simp add: export_loop.simps[of fe ia pkgname kind target child st])
  next
    case False
    from "1.IH"[OF False] show ?thesis
      using False
      by (auto simp: export_loop.simps[of fe ia pkgname kind target child st]
               intro: keeps_reports_trans[OF export_item_keeps])
  qed
qed

lemma parse_export_frame:
  "pkg_name (parse_export fe topdef st) = pkg_name st \<and>
   file_imports (parse_export fe topdef st) = file_imports st \<and>
   keeps_reports st (parse_export fe topdef st)"
  by (auto simp: parse_export_def Let_def export_loop_frame split: option.splits prod.splits)

lemma parse_package_frame [simp]:
  "file_imports (parse_package fe topdef st) = file_imports st"
  by (simp add: parse_package_def Let_def)

lemma parse_package_keeps [simp]: "keeps_reports st (parse_package fe topdef st)"
  by (auto simp: parse_package_def Let_def keeps_reports_def)


lemma imports_empty_target:
  "get_target t i \<noteq> [] \<Longrightarrow> \<not> imports_empty i"
  by (cases t) (auto simp: get_target_def imports_empty_def)

lemma get_set_target [simp]: "get_target t (set_target t m i) = m"
  by (cases t) (simp_all add: get_target_def set_target_def)

lemma import_all_set_target [simp]: "import_all (set_target t m i) = import_all i"
  by (cases t) (simp_all add: set_target_def)

lemma import_item_frame:
  "pkg_name (import_item fe ia pkgname kind target child st) = pkg_name st \<and>
   import_all (file_imports (import_item fe ia pkgname kind target child st)) = import_all (file_imports st) \<and>
   keeps_reports st (import_item fe ia pkgname kind target child st) \<and>
   \<not> imports_empty (file_imports (import_item fe ia pkgname kind target child st))"
proof -
  obtain name source err where n: "import_names fe ia pkgname child = (name, source, err)"
    by (cases "import_names fe ia pkgname child") auto
  let ?st1 = "if err then report (elt_location child) (ArityRequired (elt_content child)) st else st"
  have k1: "keeps_reports st ?st1" by simp
  have f1: "pkg_name ?st1 = pkg_name st" "file_imports ?st1 = file_imports st" by simp_all
  show ?thesis
  proof (cases "map_of (get_target target (file_imports ?st1)) name")
    case None
    then have "import_item fe ia pkgname kind target child st =
        ?st1\<lparr>file_imports := set_target target
           (get_target target (file_imports ?st1) @
              [(name, \<lparr>ss_location = elt_location child, ss_qualified = source, ss_leaf = False\<rparr>)])
           (file_imports ?st1)\<rparr>"
      by (simp add: import_item_def n Let_def)
    then show ?thesis using k1 f1
      by (auto simp: keeps_reports_def intro!: imports_empty_target[of target])
  next
    case (Some prev)
    then have e: "import_item fe ia pkgname kind target child st =
        report (elt_location child) (PreviouslyImported kind name (ss_location prev)) ?st1"
      by (simp add: import_item_def n Let_def)
    from Some have "get_target target (file_imports ?st1) \<noteq> []"
      by (cases "get_target target (file_imports ?st1)") simp_all
    then have "\<not> imports_empty (file_imports ?st1)" by (rule imports_empty_target)
    then show ?thesis using e k1 f1
      by (auto simp: keeps_reports_def)
  qed
qed

lemma imports_empty_import_all: "imports_empty i \<Longrightarrow> import_all i = []"
  by (simp add: imports_empty_def)

lemma import_loop_frame:
  "pkg_name (import_loop fe ia pkgname kind target child st) = pkg_name st \<and>
   import_all (file_imports (import_loop fe ia pkgname kind target child st)) = import_all (file_imports st) \<and>
   keeps_reports st (import_loop fe ia pkgname kind target child st) \<and>
   (\<not> elt_empty child \<or> \<not> imports_empty (file_imports st) \<longrightarrow>
      \<not> imports_empty (file_imports (import_loop fe ia pkgname kind target child st)))"
proof (induction fe ia pkgname kind target child st rule: import_loop.induct)
  case (1 fe ia pkgname kind target child st)
  show ?case
  proof (cases "elt_empty child")
    case True
    then show ?thesis by (simp add: import_loop.simps[of fe ia pkgname kind target child st])
  next
    case False
    note i = import_item_frame[of fe ia pkgname kind target child st]
    from "1.IH"[OF False] i show ?thesis
      using False
      by (auto simp: import_loop.simps[of fe ia pkgname kind target child st]
               intro: keeps_reports_trans)
  qed
qed

lemma parse_import_frame:
  "pkg_name (parse_import fe topdef st) = pkg_name st \<and>
   keeps_reports st (parse_import fe topdef st) \<and>
   \<not> imports_empty (file_imports (parse_import fe topdef st)) \<and>
   import_all (file_imports (parse_import fe topdef st)) =
     import_all (file_imports st) @ (if is_wildcard fe topdef then [fst (import_header fe topdef)] else [])"
proof -
  obtain pkgname kind target ia child where
    h: "import_header fe topdef = (pkgname, kind, target, ia, child)"
    by (cases "import_header fe topdef") auto
  show ?thesis
  proof (cases "elt_empty child")
    case True
    then show ?thesis
      by (simp add: parse_import_def h is_wildcard_def imports_empty_def keeps_reports_def)
  next
    case False
    then show ?thesis
      using import_loop_frame[of fe ia pkgname kind target child st]
      by (simp add: parse_import_def h is_wildcard_def)
  qed
qed

lemma top_item_frame:
  assumes "top_item fe topdef st = Inr st'"
  shows "keeps_reports st st'"
    and "\<not> is_kind CST_PACKAGE topdef \<Longrightarrow> pkg_name st' = pkg_name st"
    and "\<not> is_kind CST_IMPORT topdef \<Longrightarrow> file_imports st' = file_imports st"
    and "is_kind CST_IMPORT topdef \<Longrightarrow> st' = parse_import fe topdef st"
    and "is_kind CST_PACKAGE topdef \<Longrightarrow> st' = parse_package fe topdef st"
  using assms parse_export_frame[of fe topdef st] parse_import_frame[of fe topdef st]
  by (auto simp: top_item_def is_kind_def split: if_splits dest: parse_tuple_frame)


lemma siblings_empty: "elt_empty e \<Longrightarrow> siblings e = []"
  by (simp add: siblings.simps[of e])

lemma siblings_step: "\<not> elt_empty e \<Longrightarrow> siblings e = e # siblings (nextSiblingNode e)"
  by (simp add: siblings.simps[of e])

lemma top_loop_empty: "elt_empty e \<Longrightarrow> top_loop fe e st = Inr st"
  by (simp add: top_loop.simps[of fe e st])

lemma top_loop_step:
  "\<not> elt_empty e \<Longrightarrow>
   top_loop fe e st = (case top_item fe e st of Inl x \<Rightarrow> Inl x
                       | Inr st' \<Rightarrow> top_loop fe (nextSiblingNode e) st')"
  by (simp add: top_loop.simps[of fe e st])

lemma parse_package_name:
  "pkg_name (parse_package fe topdef st) =
     (if pkg_name st \<noteq> [] then pkg_name st
      else if legal_package_name (getIdentifier fe (firstChildNode topdef))
      then getIdentifier fe (firstChildNode topdef) else [])"
  by (auto simp: parse_package_def Let_def legal_package_name_def)

lemma top_loop_pkg_name:
  "top_loop fe e st = Inr st' \<Longrightarrow>
   pkg_name st' =
     (if pkg_name st \<noteq> [] then pkg_name st
      else case filter legal_package_name
                  (map (\<lambda>x. getIdentifier fe (firstChildNode x))
                     (filter (is_kind CST_PACKAGE) (siblings e))) of
             [] \<Rightarrow> [] | p # ps \<Rightarrow> p)"
proof (induction fe e st arbitrary: st' rule: top_loop.induct)
  case (1 fe e st)
  show ?case
  proof (cases "elt_empty e")
    case True
    then show ?thesis using "1.prems" by (simp add: top_loop_empty siblings_empty)
  next
    case False
    from "1.prems" False obtain st1 where
      s1: "top_item fe e st = Inr st1" and
      r: "top_loop fe (nextSiblingNode e) st1 = Inr st'"
      by (auto simp: top_loop_step split: sum.splits)
    note ih = "1.IH"[OF False s1 r]
    show ?thesis
    proof (cases "is_kind CST_PACKAGE e")
      case True
      let ?ident = "getIdentifier fe (firstChildNode e)"
      let ?rest = "filter legal_package_name
                     (map (\<lambda>x. getIdentifier fe (firstChildNode x))
                        (filter (is_kind CST_PACKAGE) (siblings (nextSiblingNode e))))"
      have sib: "filter legal_package_name
                   (map (\<lambda>x. getIdentifier fe (firstChildNode x))
                      (filter (is_kind CST_PACKAGE) (siblings e))) =
                 (if legal_package_name ?ident then ?ident # ?rest else ?rest)"
        using True False by (simp add: siblings_step)
      have p1: "pkg_name st1 =
                  (if pkg_name st \<noteq> [] then pkg_name st
                   else if legal_package_name ?ident then ?ident else [])"
        using top_item_frame(5)[OF s1 True] by (simp add: parse_package_name)
      have ne: "legal_package_name ?ident \<Longrightarrow> ?ident \<noteq> []"
        by (simp add: legal_package_name_def)
      show ?thesis
        unfolding sib using ih p1 ne by (simp split: if_splits)
    next
      case np: False
      have "pkg_name st1 = pkg_name st" using top_item_frame(2)[OF s1 np] .
      then show ?thesis using ih np False by (simp add: siblings_step)
    qed
  qed
qed

lemma top_loop_reports:
  "top_loop fe e st = Inr st' \<Longrightarrow>
   keeps_reports st st' \<and>
   (\<forall>x\<in>set (siblings e).
      is_kind CST_PACKAGE x \<and> getIdentifier fe (firstChildNode x) = ''builtin'' \<longrightarrow>
      \<lparr>d_location = elt_location (firstChildNode x), d_message = PackageBuiltin\<rparr> \<in> set (reports st'))"
proof (induction fe e st arbitrary: st' rule: top_loop.induct)
  case (1 fe e st)
  show ?case
  proof (cases "elt_empty e")
    case True
    then show ?thesis using "1.prems" by (simp add: top_loop_empty siblings_empty)
  next
    case False
    from "1.prems" False obtain st1 where
      s1: "top_item fe e st = Inr st1" and
      r: "top_loop fe (nextSiblingNode e) st1 = Inr st'"
      by (auto simp: top_loop_step split: sum.splits)
    note ih = "1.IH"[OF False s1 r]
    have k1: "keeps_reports st st1" using top_item_frame(1)[OF s1] .
    have here: "is_kind CST_PACKAGE e \<and> getIdentifier fe (firstChildNode e) = ''builtin'' \<longrightarrow>
      \<lparr>d_location = elt_location (firstChildNode e), d_message = PackageBuiltin\<rparr> \<in> set (reports st1)"
    proof
      assume a: "is_kind CST_PACKAGE e \<and> getIdentifier fe (firstChildNode e) = ''builtin''"
      then have "st1 = parse_package fe e st" using top_item_frame(5)[OF s1] by simp
      then show "\<lparr>d_location = elt_location (firstChildNode e), d_message = PackageBuiltin\<rparr> \<in> set (reports st1)"
        using a by (simp add: parse_package_def Let_def)
    qed
    show ?thesis using ih k1 here False
      by (auto simp: siblings_step keeps_reports_def)
  qed
qed

lemma top_loop_imports:
  "top_loop fe e st = Inr st' \<Longrightarrow>
   import_all (file_imports st') =
     import_all (file_imports st) @
       map (\<lambda>x. fst (import_header fe x))
         (filter (\<lambda>x. is_kind CST_IMPORT x \<and> is_wildcard fe x) (siblings e)) \<and>
   ((\<forall>x\<in>set (siblings e). \<not> is_kind CST_IMPORT x) \<longrightarrow> file_imports st' = file_imports st) \<and>
   ((\<exists>x\<in>set (siblings e). is_kind CST_IMPORT x) \<or> \<not> imports_empty (file_imports st) \<longrightarrow>
      \<not> imports_empty (file_imports st'))"
proof (induction fe e st arbitrary: st' rule: top_loop.induct)
  case (1 fe e st)
  show ?case
  proof (cases "elt_empty e")
    case True
    then show ?thesis using "1.prems" by (simp add: top_loop_empty siblings_empty)
  next
    case False
    from "1.prems" False obtain st1 where
      s1: "top_item fe e st = Inr st1" and
      r: "top_loop fe (nextSiblingNode e) st1 = Inr st'"
      by (auto simp: top_loop_step split: sum.splits)
    note ih = "1.IH"[OF False s1 r]
    show ?thesis
    proof (cases "is_kind CST_IMPORT e")
      case True
      have "st1 = parse_import fe e st" using top_item_frame(4)[OF s1 True] .
      then show ?thesis using ih True False parse_import_frame[of fe e st]
        by (simp add: siblings_step)
    next
      case ni: False
      have "file_imports st1 = file_imports st" using top_item_frame(3)[OF s1 ni] .
      then show ?thesis using ih ni False by (simp add: siblings_step)
    qed
  qed
qed


lemma dst_init_fields [simp]:
  "pkg_name dst_init = []"
  "file_imports dst_init = no_imports"
  "file_defs dst_init = []"
  "reports dst_init = []"
  by (simp_all add: dst_init_def)

lemma dst_top_Inr:
  assumes "dst_top fe root = Inr st"
  obtains st0 where "top_loop fe (firstChildNode root) dst_init = Inr st0"
    and "pkg_name st = (if pkg_name st0 = [] then filename (elt_location root) else pkg_name st0)"
    and "reports st = reports st0"
    and "file_defs st = file_defs st0"
    and "file_imports st =
           (if imports_empty (file_imports st0)
            then (file_imports st0)\<lparr>import_all := import_all (file_imports st0) @ [''wake'']\<rparr>
            else file_imports st0)"
  using assms by (auto simp: dst_top_def Let_def split: sum.splits if_splits)

text \<open>
  C8 (as amended). The package of a file is named by the first package declaration
  whose identifier is not \<open>builtin\<close> (and not empty); when the file has no such
  declaration, so also when its only declaration is \<open>package builtin\<close>, it is named
  by the filename. Every declaration \<open>package builtin\<close> is reported as an error.
\<close>

theorem dst_top_package_name:
  assumes "dst_top fe root = Inr st"
  shows "pkg_name st =
           (case filter legal_package_name (package_names fe root) of
              [] \<Rightarrow> filename (elt_location root)
            | p # ps \<Rightarrow> p) \<and>
         (\<forall>x\<in>set (top_items root).
            is_kind CST_PACKAGE x \<and> getIdentifier fe (firstChildNode x) = ''builtin'' \<longrightarrow>
            \<lparr>d_location = elt_location (firstChildNode x), d_message = PackageBuiltin\<rparr>
              \<in> set (reports st))"
proof -
  from assms obtain st0 where
    l: "top_loop fe (firstChildNode root) dst_init = Inr st0" and
    n: "pkg_name st = (if pkg_name st0 = [] then filename (elt_location root) else pkg_name st0)" and
    r: "reports st = reports st0"
    by (rule dst_top_Inr)
  have ne: "\<And>p ps. filter legal_package_name (package_names fe root) = p # ps \<Longrightarrow> p \<noteq> []"
  proof -
    fix p ps assume "filter legal_package_name (package_names fe root) = p # ps"
    then have "p \<in> set (filter legal_package_name (package_names fe root))" by simp
    then show "p \<noteq> []" by (simp add: legal_package_name_def)
  qed
  have "pkg_name st0 =
          (case filter legal_package_name (package_names fe root) of [] \<Rightarrow> [] | p # ps \<Rightarrow> p)"
    using top_loop_pkg_name[OF l] by (simp add: package_names_def top_items_def)
  then have "pkg_name st =
           (case filter legal_package_name (package_names fe root) of
              [] \<Rightarrow> filename (elt_location root)
            | p # ps \<Rightarrow> p)"
    using n ne by (simp split: list.splits)
  then show ?thesis
    using top_loop_reports[OF l] r by (simp add: top_items_def)
qed

text \<open>
  C10. A file without any import item ends with the wildcard import of \<open>wake\<close> as its
  only import. A file with an import item gets no default: its wildcard imports are the
  packages of its own wildcard import clauses, in order.
\<close>

theorem dst_top_default_import:
  assumes "dst_top fe root = Inr st"
  shows "((\<forall>x\<in>set (top_items root). \<not> is_kind CST_IMPORT x) \<longrightarrow>
            file_imports st = no_imports\<lparr>import_all := [''wake'']\<rparr>) \<and>
         ((\<exists>x\<in>set (top_items root). is_kind CST_IMPORT x) \<longrightarrow>
            import_all (file_imports st) = wildcard_imports fe root \<and>
            (\<exists>st0. top_loop fe (firstChildNode root) dst_init = Inr st0 \<and>
                   file_imports st = file_imports st0))"
proof -
  from assms obtain st0 where
    l: "top_loop fe (firstChildNode root) dst_init = Inr st0" and
    i: "file_imports st =
           (if imports_empty (file_imports st0)
            then (file_imports st0)\<lparr>import_all := import_all (file_imports st0) @ [''wake'']\<rparr>
            else file_imports st0)"
    by (rule dst_top_Inr)
  note t = top_loop_imports[OF l]
  have e: "imports_empty no_imports" by (simp add: imports_empty_def no_imports_def)
  show ?thesis
  proof (intro conjI impI)
    assume "\<forall>x\<in>set (top_items root). \<not> is_kind CST_IMPORT x"
    then have "file_imports st0 = no_imports" using t by (simp add: top_items_def)
    then show "file_imports st = no_imports\<lparr>import_all := [''wake'']\<rparr>"
      using i e by (simp add: no_imports_def)
  next
    assume a: "\<exists>x\<in>set (top_items root). is_kind CST_IMPORT x"
    then have ne: "\<not> imports_empty (file_imports st0)" using t by (simp add: top_items_def)
    then show "import_all (file_imports st) = wildcard_imports fe root"
      using i t by (simp add: wildcard_imports_def top_items_def no_imports_def)
    from ne show "\<exists>st0. top_loop fe (firstChildNode root) dst_init = Inr st0 \<and>
                   file_imports st = file_imports st0"
      using i l by simp
  qed
qed


section \<open>Top-level definitions\<close>

lemma cursor_head [simp]:
  "elt_id (n # r) = Some (n_id n)"
  "elt_location (n # r) = n_location n"
  "elt_content (n # r) = n_content n"
  "firstChildElement (n # r) = n_children n"
  "firstChildNode (n # r) = dropWhile (\<lambda>n. \<not> isNode n) (n_children n)"
  "\<not> elt_empty (n # r)"
  by (simp_all add: elt_id_def elt_location_def elt_content_def firstChildElement_def
                    firstChildNode_def elt_empty_def)

lemma top_item_head: "top_item fe (n # r1) st = top_item fe (n # r2) st"
  by (simp add: top_item_def parse_package_def parse_import_def import_header_def
                parse_export_def parse_topic_def parse_data_def data_sum_def
                parse_tuple_def tuple_sum_def Let_def)

lemma top_item_def_node:
  "n_id n = NonTerminal CST_DEF \<Longrightarrow> top_item fe (n # r) st = Inr st"
  by (simp add: top_item_def)

lemma top_loop_without_defs:
  "top_loop fe (dropWhile (\<lambda>n. \<not> isNode n) (filter (\<lambda>k. n_id k \<noteq> NonTerminal CST_DEF) kids)) st =
   top_loop fe (dropWhile (\<lambda>n. \<not> isNode n) kids) st"
proof (induction kids arbitrary: st)
  case Nil
  show ?case by simp
next
  case (Cons n kids)
  let ?f = "filter (\<lambda>k. n_id k \<noteq> NonTerminal CST_DEF)"
  let ?d = "dropWhile (\<lambda>n. \<not> isNode n)"
  show ?case
  proof (cases "isNode n")
    case False
    then show ?thesis using Cons.IH by simp
  next
    case True
    show ?thesis
    proof (cases "n_id n = NonTerminal CST_DEF")
      case d: True
      have "top_loop fe (?d (n # kids)) st = top_loop fe (?d kids) st"
        using True d
        by (simp add: top_loop_step[of "n # kids"] top_item_def_node nextSiblingNode_def)
      then show ?thesis using d Cons.IH by simp
    next
      case nd: False
      have l: "top_loop fe (?d (?f (n # kids))) st =
               (case top_item fe (n # ?f kids) st of Inl x \<Rightarrow> Inl x
                | Inr st' \<Rightarrow> top_loop fe (?d (?f kids)) st')"
        using True nd
        by (simp add: top_loop_step[of "n # ?f kids"] nextSiblingNode_def cong: sum.case_cong)
      have r: "top_loop fe (?d (n # kids)) st =
               (case top_item fe (n # kids) st of Inl x \<Rightarrow> Inl x
                | Inr st' \<Rightarrow> top_loop fe (?d kids) st')"
        using True
        by (simp add: top_loop_step[of "n # kids"] nextSiblingNode_def cong: sum.case_cong)
      show ?thesis
        unfolding l r top_item_head[of fe n "?f kids" st kids]
        using Cons.IH by (simp split: sum.splits)
    qed
  qed
qed

lemma dst_top_without_defs:
  "dst_top fe (without_defs root) = dst_top fe root"
proof (cases root)
  case Nil
  then show ?thesis by (simp add: without_defs_def)
next
  case (Cons n rest)
  have l: "top_loop fe (firstChildNode (without_defs root)) dst_init =
           top_loop fe (firstChildNode root) dst_init"
    using Cons top_loop_without_defs[of fe "n_children n" dst_init]
    by (simp add: without_defs_def)
  have loc: "elt_location (without_defs root) = elt_location root"
    using Cons by (simp add: without_defs_def)
  show ?thesis by (simp only: dst_top_def l loc)
qed

text \<open>
  C2. The switch of \<open>dst_top\<close> has no case for \<open>CST_DEF\<close>: the file \<open>def f x = x\<close>
  is desugared without an error and without a report, and its definitions hold no
  binding at all, so none of \<open>f\<close>.
\<close>

theorem dst_top_def_unbound:
  "map_sum id file_defs (dst_top ascii_frontend def_file) = Inr [] \<and>
   map_sum id reports (dst_top ascii_frontend def_file) = Inr [] \<and>
   is_kind CST_DEF (firstChildNode def_file)"
  by code_simp


section \<open>The examples\<close>

theorem bind_def_first_wins_witness:
  "map_of (file_defs (bind_def (new_Definition ''f'' (at 20 21) (new_Expr (at 24 25) (VarRef ''y'')))
                        False False
                        (bind_def (new_Definition ''f'' (at 4 5) (new_Expr (at 8 9) (VarRef ''x'')))
                           False False dst_init))) ''f'' =
     Some \<lparr>dv_location = at 4 5, dv_body = new_Expr (at 8 9) (VarRef ''x''), dv_typeVars = []\<rparr> \<and>
   reports (bind_def (new_Definition ''f'' (at 20 21) (new_Expr (at 24 25) (VarRef ''y'')))
              False False
              (bind_def (new_Definition ''f'' (at 4 5) (new_Expr (at 8 9) (VarRef ''x'')))
                 False False dst_init)) =
     [\<lparr>d_location = at 24 25, d_message = PreviouslyDefined ''definition'' ''f'' (at 8 9)\<rparr>] \<and>
   file_defs (bind_def (new_Definition ''_'' (at 20 21) (new_Expr (at 24 25) (VarRef ''y'')))
                True True
                (bind_def (new_Definition ''_'' (at 4 5) (new_Expr (at 8 9) (VarRef ''x'')))
                   True True dst_init)) =
     [(''_0 _'', \<lparr>dv_location = at 4 5, dv_body = new_Expr (at 8 9) (VarRef ''x''), dv_typeVars = []\<rparr>),
      (''_1 _'', \<lparr>dv_location = at 20 21, dv_body = new_Expr (at 24 25) (VarRef ''y''), dv_typeVars = []\<rparr>)] \<and>
   reports (bind_def (new_Definition ''_'' (at 20 21) (new_Expr (at 24 25) (VarRef ''y'')))
              True True
              (bind_def (new_Definition ''_'' (at 4 5) (new_Expr (at 8 9) (VarRef ''x'')))
                 True True dst_init)) = []"
proof -
  let ?d1 = "new_Definition ''f'' (at 4 5) (new_Expr (at 8 9) (VarRef ''x''))"
  let ?d2 = "new_Definition ''f'' (at 20 21) (new_Expr (at 24 25) (VarRef ''y''))"
  let ?w1 = "new_Definition ''_'' (at 4 5) (new_Expr (at 8 9) (VarRef ''x''))"
  let ?w2 = "new_Definition ''_'' (at 20 21) (new_Expr (at 24 25) (VarRef ''y''))"
  let ?s1 = "bind_def ?d1 False False dst_init"
  let ?v1 = "\<lparr>dv_location = at 4 5, dv_body = new_Expr (at 8 9) (VarRef ''x''), dv_typeVars = []\<rparr>"
  have s1: "file_defs ?s1 = [(''f'', ?v1)]" "reports ?s1 = []"
    by (simp_all add: bind_def_def Let_def new_Definition_def)
  have h: "df_name ?d2 \<noteq> ''_'' \<and> map_of (file_defs ?s1) (df_name ?d2) = Some ?v1"
    using s1 by (simp add: new_Definition_def)
  have i: "file_defs dst_init = []" "reports dst_init = []" by (simp_all add: dst_init_def)
  note th = bind_def_first_wins[where d = ?d2 and st = ?s1 and first = ?v1 and e = False and g = False
            and ?d1.0 = ?d1 and ?d2.0 = ?d2 and ?e1.0 = False and ?g1.0 = False
            and ?e2.0 = False and ?g2.0 = False and s = dst_init
            and w = ?w1 and t = dst_init and ?e3.0 = True and ?g3.0 = True
            and ?w1.0 = ?w1 and ?w2.0 = ?w2 and u = dst_init
            and ?e4.0 = True and ?g4.0 = True and ?e5.0 = True and ?g5.0 = True]
  note c2 = th[THEN conjunct2, THEN conjunct1, rule_format]
  note c5 = th[THEN conjunct2, THEN conjunct2, THEN conjunct2, THEN conjunct2, rule_format]
  have p2: "df_name ?d1 \<noteq> ''_'' \<and> df_name ?d2 = df_name ?d1 \<and>
            map_of (file_defs dst_init) (df_name ?d1) = None"
    by (simp add: new_Definition_def)
  have p5: "df_name ?w1 = ''_'' \<and> df_name ?w2 = ''_'' \<and>
            map_of (file_defs dst_init) (''_'' @ to_string (length (file_defs dst_init)) @ '' _'') = None \<and>
            map_of (file_defs dst_init) (''_'' @ to_string (Suc (length (file_defs dst_init))) @ '' _'') = None"
    by (simp add: new_Definition_def i)
  have a: "map_of (file_defs (bind_def ?d2 False False (bind_def ?d1 False False dst_init))) ''f'' = Some ?v1"
    "reports (bind_def ?d2 False False (bind_def ?d1 False False dst_init)) =
       [\<lparr>d_location = at 24 25, d_message = PreviouslyDefined ''definition'' ''f'' (at 8 9)\<rparr>]"
    using c2[OF p2] by (simp_all add: new_Definition_def new_Expr_def i)
  have b: "file_defs (bind_def ?w2 True True (bind_def ?w1 True True dst_init)) =
     [(''_0 _'', \<lparr>dv_location = at 4 5, dv_body = new_Expr (at 8 9) (VarRef ''x''), dv_typeVars = []\<rparr>),
      (''_1 _'', \<lparr>dv_location = at 20 21, dv_body = new_Expr (at 24 25) (VarRef ''y''), dv_typeVars = []\<rparr>)]"
    "reports (bind_def ?w2 True True (bind_def ?w1 True True dst_init)) = []"
    using c5[OF p5] by (simp_all add: new_Definition_def i to_string_0 to_string_1)
  show ?thesis using a b by blast
qed

theorem dst_top_builtin_counterexample:
  "package_names ascii_frontend builtin_file = [''builtin''] \<and>
   map_sum id pkg_name (dst_top ascii_frontend builtin_file) = Inr ''demo.wake''"
  by code_simp

theorem dst_top_package_name_witness:
  "(\<exists>st. dst_top ascii_frontend import_file = Inr st \<and> pkg_name st = ''p'') \<and>
   (\<exists>st. dst_top ascii_frontend builtin_file = Inr st \<and> pkg_name st = ''demo.wake'' \<and>
         \<lparr>d_location = at 8 15, d_message = PackageBuiltin\<rparr> \<in> set (reports st))"
proof -
  have "\<not> isl (dst_top ascii_frontend import_file)" by code_simp
  then obtain s1 where s1: "dst_top ascii_frontend import_file = Inr s1"
    by (cases "dst_top ascii_frontend import_file") auto
  have "\<not> isl (dst_top ascii_frontend builtin_file)" by code_simp
  then obtain s2 where s2: "dst_top ascii_frontend builtin_file = Inr s2"
    by (cases "dst_top ascii_frontend builtin_file") auto
  have n1: "package_names ascii_frontend import_file = [''p'']" by code_simp
  have n2: "package_names ascii_frontend builtin_file = [''builtin'']" by code_simp
  have l: "legal_package_name ''p''" "\<not> legal_package_name ''builtin''"
    by (simp_all add: legal_package_name_def)
  have f: "filename (elt_location builtin_file) = ''demo.wake''" by code_simp
  have t: "top_items builtin_file = [firstChildNode builtin_file]" by code_simp
  have k: "is_kind CST_PACKAGE (firstChildNode builtin_file)" by code_simp
  have i: "getIdentifier ascii_frontend (firstChildNode (firstChildNode builtin_file)) = ''builtin''"
    by code_simp
  have e: "elt_location (firstChildNode (firstChildNode builtin_file)) = at 8 15" by code_simp
  from dst_top_package_name[OF s1] n1 l have "pkg_name s1 = ''p''" by simp
  moreover from dst_top_package_name[OF s2] n2 l f t k i e
  have "pkg_name s2 = ''demo.wake'' \<and>
        \<lparr>d_location = at 8 15, d_message = PackageBuiltin\<rparr> \<in> set (reports s2)"
    by simp
  ultimately show ?thesis using s1 s2 by simp
qed

theorem dst_top_default_import_witness:
  "(\<exists>st. dst_top ascii_frontend def_file = Inr st \<and>
         file_imports st = no_imports\<lparr>import_all := [''wake'']\<rparr>) \<and>
   (\<exists>st. dst_top ascii_frontend import_file = Inr st \<and> import_all (file_imports st) = [])"
proof -
  have "\<not> isl (dst_top ascii_frontend def_file)" by code_simp
  then obtain s1 where s1: "dst_top ascii_frontend def_file = Inr s1"
    by (cases "dst_top ascii_frontend def_file") auto
  have "\<not> isl (dst_top ascii_frontend import_file)" by code_simp
  then obtain s2 where s2: "dst_top ascii_frontend import_file = Inr s2"
    by (cases "dst_top ascii_frontend import_file") auto
  have a: "\<forall>x\<in>set (top_items def_file). \<not> is_kind CST_IMPORT x" by code_simp
  have b: "\<exists>x\<in>set (top_items import_file). is_kind CST_IMPORT x" by code_simp
  have w: "wildcard_imports ascii_frontend import_file = []" by code_simp
  from dst_top_default_import[OF s1] a
  have "file_imports s1 = no_imports\<lparr>import_all := [''wake'']\<rparr>" by blast
  moreover from dst_top_default_import[OF s2] b w
  have "import_all (file_imports s2) = []" by simp
  ultimately show ?thesis using s1 s2 by simp
qed


section \<open>Imports\<close>


















section \<open>Data declarations\<close>

lemma bind_def_keeps_binding:
  "map_of (file_defs st) n = Some v \<Longrightarrow> map_of (file_defs (bind_def d e g st)) n = Some v"
  by (auto simp: bind_def_def Let_def map_of_snoc split: option.splits)

lemma bind_def_other_name:
  "df_name d \<noteq> ''_'' \<Longrightarrow> df_name d \<noteq> n \<Longrightarrow>
   map_of (file_defs (bind_def d e g st)) n = map_of (file_defs st) n"
  by (auto simp: bind_def_def Let_def map_of_snoc split: option.splits)

lemma wrap_lambdas_funpow:
  "wrap_lambdas l n e = ((\<lambda>b. new_Expr l (Lambda ''_'' b)) ^^ n) e"
  by (induction n arbitrary: e)
     (simp_all add: funpow_swap1[of "\<lambda>b. new_Expr l (Lambda ''_'' b)"])

lemma data_members_keeps_binding:
  "map_of (file_defs st) n = Some v \<Longrightarrow>
   map_of (file_defs (data_members sump e g cs st)) n = Some v"
  by (induction cs arbitrary: st) (simp_all add: bind_def_keeps_binding)

lemma data_members_binds:
  assumes "i < length cs"
    and "map_of (file_defs st) (ast_name (c_ast (cs ! i))) = None"
    and "ast_name (c_ast (cs ! i)) \<noteq> ''_''"
    and "\<forall>j<i. ast_name (c_ast (cs ! j)) \<noteq> ast_name (c_ast (cs ! i)) \<and>
               ast_name (c_ast (cs ! j)) \<noteq> ''_''"
  shows "map_of (file_defs (data_members sump e g cs st)) (ast_name (c_ast (cs ! i))) =
           Some \<lparr>dv_location = ast_token (c_ast (cs ! i)),
                 dv_body = wrap_lambdas (ast_token (c_ast (cs ! i)))
                             (length (ast_args (c_ast (cs ! i))))
                             (new_Expr (ast_token (c_ast (cs ! i)))
                                (Construct sump (c_index (cs ! i)))),
                 dv_typeVars = []\<rparr>"
  using assms
proof (induction cs arbitrary: st i)
  case Nil
  then show ?case by simp
next
  case (Cons c0 cs)
  let ?d0 = "new_Definition (ast_name (c_ast c0)) (ast_token (c_ast c0))
               (wrap_lambdas (ast_token (c_ast c0)) (length (ast_args (c_ast c0)))
                  (new_Expr (ast_token (c_ast c0)) (Construct sump (c_index c0))))"
  let ?st1 = "bind_def ?d0 e g st"
  show ?case
  proof (cases i)
    case 0
    have n0: "df_name ?d0 \<noteq> ''_''" using Cons.prems(3) 0 by (simp add: new_Definition_def)
    have f0: "map_of (file_defs st) (df_name ?d0) = None"
      using Cons.prems(2) 0 by (simp add: new_Definition_def)
    have "map_of (file_defs ?st1) (ast_name (c_ast c0)) =
            Some \<lparr>dv_location = ast_token (c_ast c0),
                  dv_body = wrap_lambdas (ast_token (c_ast c0)) (length (ast_args (c_ast c0)))
                              (new_Expr (ast_token (c_ast c0)) (Construct sump (c_index c0))),
                  dv_typeVars = []\<rparr>"
      using bind_def_fresh(1)[OF n0 f0, of e g] f0
      by (simp add: new_Definition_def map_of_snoc)
    then show ?thesis using 0 by (simp add: data_members_keeps_binding)
  next
    case (Suc i')
    have i': "i' < length cs" using Cons.prems(1) Suc by simp
    have d: "ast_name (c_ast c0) \<noteq> ast_name (c_ast (cs ! i'))" "ast_name (c_ast c0) \<noteq> ''_''"
      using Cons.prems(4) Suc by auto
    have f1: "map_of (file_defs ?st1) (ast_name (c_ast (cs ! i'))) = None"
      using bind_def_other_name[of ?d0 "ast_name (c_ast (cs ! i'))" e g st] d Cons.prems(2) Suc
      by (simp add: new_Definition_def)
    have n1: "ast_name (c_ast (cs ! i')) \<noteq> ''_''" using Cons.prems(3) Suc by simp
    have o1: "\<forall>j<i'. ast_name (c_ast (cs ! j)) \<noteq> ast_name (c_ast (cs ! i')) \<and>
                     ast_name (c_ast (cs ! j)) \<noteq> ''_''"
      using Cons.prems(4) Suc by auto
    from Cons.IH[OF i' f1 n1 o1] show ?thesis using Suc by simp
  qed
qed

lemma addConstructor_indexed:
  "\<forall>k<length (s_members s). c_index (s_members s ! k) = k \<Longrightarrow>
   \<forall>k<length (s_members (addConstructor a s)). c_index (s_members (addConstructor a s) ! k) = k"
  by (auto simp: addConstructor_def nth_append)

lemma data_constructors_indexed:
  "\<forall>k<length (s_members (fst acc)). c_index (s_members (fst acc) ! k) = k \<Longrightarrow>
   \<forall>k<length (s_members (fst (data_constructors fe child acc))).
      c_index (s_members (fst (data_constructors fe child acc)) ! k) = k"
proof (induction fe child acc rule: data_constructors.induct)
  case (1 fe child acc)
  show ?case
  proof (cases "elt_empty child")
    case True
    then show ?thesis using "1.prems" by (simp add: data_constructors.simps[of fe child acc])
  next
    case False
    let ?cons = "parse_type fe child"
    let ?e1 = "if ast_tag (fst ?cons) \<noteq> []
               then [diag (ast_region (fst ?cons))
                       (ConstructorTagged (ast_name (fst ?cons)) (ast_tag (fst ?cons)))]
               else []"
    let ?e2 = "if ast_args (fst ?cons) = [] \<and> lex_kind fe (ast_name (fst ?cons)) = LOWER
               then [diag (ast_token (fst ?cons)) (ConstructorNotUpper (ast_name (fst ?cons)))]
               else []"
    let ?acc = "(addConstructor (fst ?cons) (fst acc), snd acc @ snd ?cons @ ?e1 @ ?e2)"
    have u: "data_constructors fe child acc = data_constructors fe (nextSiblingNode child) ?acc"
      using False by (simp add: data_constructors.simps[of fe child acc] Let_def)
    have p: "\<forall>k<length (s_members (fst ?acc)). c_index (s_members (fst ?acc) ! k) = k"
      using addConstructor_indexed[OF "1.prems"] by simp
    from "1.IH"[OF False refl refl refl p] show ?thesis unfolding u .
  qed
qed

lemma data_sum_indexed:
  assumes "data_sum fe topdef = (fl, sump, errs)"
  shows "\<forall>k<length (s_members sump). c_index (s_members sump ! k) = k"
proof -
  obtain fl0 child where pf: "parse_flags (firstChildNode topdef) = (fl0, child)"
    by (cases "parse_flags (firstChildNode topdef)") auto
  let ?sum0 = "new_Sum (fst (parse_type fe child))"
  let ?e0 = "snd (parse_type fe child) @
             (if s_args ?sum0 = [] \<and> lex_kind fe (s_name ?sum0) = LOWER
              then [diag (elt_location child) (DataNotUpper (s_name ?sum0))] else [])"
  have "data_constructors fe (nextSiblingNode child) (?sum0, ?e0) = (sump, errs)"
    using assms by (simp add: data_sum_def pf Let_def split: prod.splits)
  then have "sump = fst (data_constructors fe (nextSiblingNode child) (?sum0, ?e0))"
    by simp
  moreover have "\<forall>k<length (s_members (fst (?sum0, ?e0))). c_index (s_members (fst (?sum0, ?e0)) ! k) = k"
    by (simp add: new_Sum_def)
  ultimately show ?thesis
    using data_constructors_indexed[of "(?sum0, ?e0)" fe "nextSiblingNode child"] by simp
qed

lemma parse_data_binds:
  assumes "data_sum fe topdef = (fl, sump, errs)"
    and "k < length (s_members sump)"
    and "c = s_members sump ! k"
    and "map_of (file_defs st) (ast_name (c_ast c)) = None"
    and "ast_name (c_ast c) \<noteq> ''_''"
    and "\<forall>j<k. ast_name (c_ast (s_members sump ! j)) \<noteq> ast_name (c_ast c) \<and>
               ast_name (c_ast (s_members sump ! j)) \<noteq> ''_''"
  shows "map_of (file_defs (parse_data fe topdef st)) (ast_name (c_ast c)) =
           Some \<lparr>dv_location = ast_token (c_ast c),
                 dv_body = ((\<lambda>b. new_Expr (ast_token (c_ast c)) (Lambda ''_'' b))
                              ^^ length (ast_args (c_ast c)))
                             (new_Expr (ast_token (c_ast c)) (Construct sump k)),
                 dv_typeVars = []\<rparr> \<and>
         (ast_args (c_ast c) = [] \<longrightarrow>
            map_of (file_defs (parse_data fe topdef st)) (ast_name (c_ast c)) =
              Some \<lparr>dv_location = ast_token (c_ast c),
                    dv_body = new_Expr (ast_token (c_ast c)) (Construct sump k),
                    dv_typeVars = []\<rparr>)"
proof -
  let ?st3 = "st\<lparr>reports := reports st @ errs\<rparr>"
  let ?st4 = "bind_type (s_name sump) (s_token sump) (exportf fl) (globalf fl) ?st3"
  let ?st5 = "data_members sump (exportf fl) (globalf fl) (s_members sump) ?st4"
  have d: "file_defs (parse_data fe topdef st) = file_defs ?st5"
    by (simp add: parse_data_def assms(1) Let_def)
  have f4: "map_of (file_defs ?st4) (ast_name (c_ast (s_members sump ! k))) = None"
    using assms(3,4) by simp
  have idx: "c_index c = k" using data_sum_indexed[OF assms(1)] assms(2,3) by simp
  have "map_of (file_defs ?st5) (ast_name (c_ast c)) =
           Some \<lparr>dv_location = ast_token (c_ast c),
                 dv_body = wrap_lambdas (ast_token (c_ast c)) (length (ast_args (c_ast c)))
                             (new_Expr (ast_token (c_ast c)) (Construct sump (c_index c))),
                 dv_typeVars = []\<rparr>"
    using data_members_binds[OF assms(2) f4, of sump "exportf fl" "globalf fl"] assms(3,5,6)
    by simp
  then show ?thesis
    unfolding d by (simp add: idx wrap_lambdas_funpow)
qed

lemma parse_flags_marked:
  "parse_flags (firstChildNode item) =
     (\<lparr>exportf = marked_export item, globalf = marked_global item\<rparr>, declared item)"
  by (simp add: parse_flags_def Let_def marked_export_def marked_global_def declared_def
                after_global_def)

lemma data_constructors_members:
  "fst (data_constructors fe child acc) =
     (fst acc)\<lparr>s_members := s_members (fst acc) @
                 map (numbered fe) (enumerate (length (s_members (fst acc))) (siblings child))\<rparr>"
proof (induction fe child acc rule: data_constructors.induct)
  case (1 fe child acc)
  show ?case
  proof (cases "elt_empty child")
    case True
    then show ?thesis
      by (simp add: data_constructors.simps[of fe child acc] siblings_empty)
  next
    case False
    let ?cons = "parse_type fe child"
    let ?e1 = "if ast_tag (fst ?cons) \<noteq> []
               then [diag (ast_region (fst ?cons))
                       (ConstructorTagged (ast_name (fst ?cons)) (ast_tag (fst ?cons)))]
               else []"
    let ?e2 = "if ast_args (fst ?cons) = [] \<and> lex_kind fe (ast_name (fst ?cons)) = LOWER
               then [diag (ast_token (fst ?cons)) (ConstructorNotUpper (ast_name (fst ?cons)))]
               else []"
    let ?acc = "(addConstructor (fst ?cons) (fst acc), snd acc @ snd ?cons @ ?e1 @ ?e2)"
    have u: "data_constructors fe child acc = data_constructors fe (nextSiblingNode child) ?acc"
      using False by (simp add: data_constructors.simps[of fe child acc] Let_def)
    from "1.IH"[OF False refl refl refl] show ?thesis
      unfolding u
      by (simp add: siblings_step[OF False] addConstructor_def numbered_def)
  qed
qed

lemma data_sum_declared:
  "data_sum fe topdef =
     (\<lparr>exportf = marked_export topdef, globalf = marked_global topdef\<rparr>,
      declared_sum fe topdef, snd (snd (data_sum fe topdef)))"
proof -
  let ?child = "declared topdef"
  let ?sum0 = "new_Sum (fst (parse_type fe ?child))"
  let ?e0 = "snd (parse_type fe ?child) @
             (if s_args ?sum0 = [] \<and> lex_kind fe (s_name ?sum0) = LOWER
              then [diag (elt_location ?child) (DataNotUpper (s_name ?sum0))] else [])"
  let ?r = "data_constructors fe (nextSiblingNode ?child) (?sum0, ?e0)"
  have d: "data_sum fe topdef =
             (\<lparr>exportf = marked_export topdef, globalf = marked_global topdef\<rparr>, fst ?r, snd ?r)"
    by (simp add: data_sum_def parse_flags_marked Let_def split: prod.splits)
  have "fst ?r = declared_sum fe topdef"
    by (simp add: data_constructors_members new_Sum_def declared_sum_def clauses_def)
  then show ?thesis using d by simp
qed

text \<open>
  C3 (as amended). Take the clause at position \<open>k\<close> of a \<open>data\<close> declaration, the
  constructor \<open>cons\<close>. When its name is not \<open>_\<close>, is not bound in the file's
  definitions before the declaration, and is not the name of an earlier constructor of
  the declaration, none of which is named \<open>_\<close>: \<open>parse_data\<close> binds the name to
  \<open>Construct\<close> of the sum of the declaration and of \<open>k\<close>, wrapped in one \<open>Lambda\<close>
  of parameter \<open>_\<close> for each argument of \<open>cons\<close>, and in none when it has no
  argument.
\<close>

theorem parse_data_binds_constructors:
  assumes "k < length (clauses topdef)"
    and "cons = fst (parse_type fe (clauses topdef ! k))"
    and "ast_name cons \<noteq> ''_''"
    and "map_of (file_defs st) (ast_name cons) = None"
    and "\<forall>j<k. ast_name (fst (parse_type fe (clauses topdef ! j))) \<noteq> ast_name cons \<and>
               ast_name (fst (parse_type fe (clauses topdef ! j))) \<noteq> ''_''"
  shows "map_of (file_defs (parse_data fe topdef st)) (ast_name cons) =
           Some \<lparr>dv_location = ast_token cons,
                 dv_body = ((\<lambda>b. new_Expr (ast_token cons) (Lambda ''_'' b))
                              ^^ length (ast_args cons))
                             (new_Expr (ast_token cons) (Construct (declared_sum fe topdef) k)),
                 dv_typeVars = []\<rparr> \<and>
         (ast_args cons = [] \<longrightarrow>
            map_of (file_defs (parse_data fe topdef st)) (ast_name cons) =
              Some \<lparr>dv_location = ast_token cons,
                    dv_body = new_Expr (ast_token cons) (Construct (declared_sum fe topdef) k),
                    dv_typeVars = []\<rparr>)"
proof -
  let ?sump = "declared_sum fe topdef"
  have len: "length (s_members ?sump) = length (clauses topdef)"
    by (simp add: declared_sum_def)
  have m: "c_ast (s_members ?sump ! j) = fst (parse_type fe (clauses topdef ! j))"
    if "j < length (clauses topdef)" for j
    using that by (simp add: declared_sum_def numbered_def nth_enumerate_eq)
  have c: "cons = c_ast (s_members ?sump ! k)" using m[OF assms(1)] assms(2) by simp
  have o: "\<forall>j<k. ast_name (c_ast (s_members ?sump ! j)) \<noteq> ast_name (c_ast (s_members ?sump ! k)) \<and>
                 ast_name (c_ast (s_members ?sump ! j)) \<noteq> ''_''"
    using assms(1,5) m c by auto
  show ?thesis
    using parse_data_binds[OF data_sum_declared, of k fe topdef "s_members ?sump ! k" st]
          assms(1,3,4) len o c
    by simp
qed

theorem parse_data_binds_constructors_witness:
  "map_of (file_defs (parse_data ascii_frontend maybe_data dst_init)) ''Some'' =
     Some \<lparr>dv_location = at 15 19,
           dv_body = new_Expr (at 15 19)
                       (Lambda ''_''
                          (new_Expr (at 15 19)
                             (Construct (declared_sum ascii_frontend maybe_data) 0))),
           dv_typeVars = []\<rparr> \<and>
   map_of (file_defs (parse_data ascii_frontend maybe_data dst_init)) ''None'' =
     Some \<lparr>dv_location = at 24 28,
           dv_body = new_Expr (at 24 28) (Construct (declared_sum ascii_frontend maybe_data) 1),
           dv_typeVars = []\<rparr> \<and>
   map c_index (s_members (declared_sum ascii_frontend maybe_data)) = [0, 1]"
proof -
  let ?c0 = "fst (parse_type ascii_frontend (clauses maybe_data ! 0))"
  let ?c1 = "fst (parse_type ascii_frontend (clauses maybe_data ! 1))"
  have len: "length (clauses maybe_data) = 2" by code_simp
  have c0: "ast_name ?c0 = ''Some''" "ast_token ?c0 = at 15 19" "length (ast_args ?c0) = 1"
    by code_simp+
  have c1: "ast_name ?c1 = ''None''" "ast_token ?c1 = at 24 28" "ast_args ?c1 = []"
    by code_simp+
  have a: "map_of (file_defs (parse_data ascii_frontend maybe_data dst_init)) ''Some'' =
     Some \<lparr>dv_location = at 15 19,
           dv_body = new_Expr (at 15 19)
                       (Lambda ''_'' (new_Expr (at 15 19)
                          (Construct (declared_sum ascii_frontend maybe_data) 0))),
           dv_typeVars = []\<rparr>"
    using parse_data_binds_constructors[of 0 maybe_data ?c0 ascii_frontend dst_init] len c0
    by simp
  have b: "map_of (file_defs (parse_data ascii_frontend maybe_data dst_init)) ''None'' =
     Some \<lparr>dv_location = at 24 28,
           dv_body = new_Expr (at 24 28) (Construct (declared_sum ascii_frontend maybe_data) 1),
           dv_typeVars = []\<rparr>"
    using parse_data_binds_constructors[of 1 maybe_data ?c1 ascii_frontend dst_init] len c0 c1
    by simp
  have c: "map c_index (s_members (declared_sum ascii_frontend maybe_data)) = [0, 1]"
    by code_simp
  from a b c show ?thesis by simp
qed

theorem parse_data_duplicate_counterexample:
  "map_of (file_defs (parse_data ascii_frontend dup_data dst_init)) ''B'' =
     Some \<lparr>dv_location = at 9 10,
           dv_body = new_Expr (at 9 10) (Construct (declared_sum ascii_frontend dup_data) 0),
           dv_typeVars = []\<rparr> \<and>
   ast_name (fst (parse_type ascii_frontend (clauses dup_data ! 1))) = ''B'' \<and>
   length (ast_args (fst (parse_type ascii_frontend (clauses dup_data ! 1)))) = 2 \<and>
   bound_names (parse_data ascii_frontend dup_data dst_init) = [''B'']"
  by code_simp


section \<open>Tuple declarations\<close>

lemma to_string_length:
  "n < 10 ^ k \<Longrightarrow> 0 < k \<Longrightarrow> length (to_string n) \<le> k"
proof (induction n arbitrary: k rule: to_string.induct)
  case (1 n)
  show ?case
  proof (cases "n < 10")
    case True
    then show ?thesis using "1.prems" by (simp add: to_string.simps[of n])
  next
    case False
    obtain k' where k: "k = Suc k'" using "1.prems"(2) by (cases k) auto
    have "k' \<noteq> 0" using False "1.prems"(1) k by (cases k') auto
    moreover have "n div 10 < 10 ^ k'" using "1.prems"(1) k
      by (simp add: less_mult_imp_div_less mult.commute)
    ultimately have "length (to_string (n div 10)) \<le> k'"
      using "1.IH"[OF False, of k'] by simp
    then show ?thesis using False k by (simp add: to_string.simps[of n])
  qed
qed

lemma slot_name_total: "n < 10000 \<Longrightarrow> \<exists>s. slot_name n inner = Inr s"
proof -
  assume "n < 10000"
  then have "n - inner < 10 ^ 4" by simp
  then have "length (to_string (n - inner)) \<le> 4" by (rule to_string_length) simp
  then show ?thesis by (simp add: slot_name_def Let_def)
qed

lemma edit_defs_total:
  "n < 10000 \<Longrightarrow> \<exists>ds. edit_defs sump c tok mname n outer is acc = Inr ds"
proof (induction "is" arbitrary: acc)
  case Nil
  show ?case by simp
next
  case (Cons i rest)
  from slot_name_total[OF Cons.prems, of i] obtain s where "slot_name n i = Inr s" by blast
  then show ?case using Cons.IH[OF Cons.prems] by (simp add: Let_def)
qed

lemma set_defs_total:
  "n < 10000 \<Longrightarrow> \<exists>ds. set_defs sump c tok mname n outer is acc = Inr ds"
proof (induction "is" arbitrary: acc)
  case Nil
  show ?case by simp
next
  case (Cons i rest)
  from slot_name_total[OF Cons.prems, of i] obtain s where "slot_name n i = Inr s" by blast
  then show ?case using Cons.IH[OF Cons.prems] by simp
qed

lemma get_accessor_is:
  "is_accessor (''get'' @ name @ ast_tag (ast_args (c_ast c) ! i))
     (ast_region (ast_args (c_ast c) ! i)) (get_accessor sump c name i)"
  by (simp add: is_accessor_def get_accessor_def Let_def new_Definition_def set_flag_def)

lemma get_accessor_body:
  "df_body (get_accessor sump c name i) =
     Expr (ast_region (ast_args (c_ast c) ! i)) {FLAG_SYNTHETIC}
       (Lambda ''_'' (Expr (ast_region (ast_args (c_ast c) ! i)) {} (Get sump (c_index c) i)))"
  by (simp add: get_accessor_def Let_def new_Definition_def set_flag_def new_Expr_def)

lemma edit_accessor_is:
  "edit_accessor sump c name n outer i = Inr d \<Longrightarrow>
   is_accessor (''edit'' @ name @ ast_tag (ast_args (c_ast c) ! i))
     (ast_region (ast_args (c_ast c) ! i)) d"
  by (auto simp: is_accessor_def edit_accessor_def Let_def new_Definition_def set_flag_def
           split: sum.splits)

lemma set_accessor_is:
  "set_accessor sump c name n outer i = Inr d \<Longrightarrow>
   is_accessor (''set'' @ name @ ast_tag (ast_args (c_ast c) ! i))
     (ast_region (ast_args (c_ast c) ! i)) d"
  by (auto simp: is_accessor_def set_accessor_def Let_def new_Definition_def set_flag_def
           split: sum.splits)

lemma edit_accessor_total: "n < 10000 \<Longrightarrow> \<exists>d. edit_accessor sump c name n outer i = Inr d"
proof -
  assume n: "n < 10000"
  obtain ds where
    "edit_defs sump (c_index c) (ast_region (ast_args (c_ast c) ! i))
       (ast_tag (ast_args (c_ast c) ! i)) n outer [0..<n] [] = Inr ds"
    using edit_defs_total[OF n] by blast
  then show ?thesis by (simp add: edit_accessor_def Let_def)
qed

lemma set_accessor_total: "n < 10000 \<Longrightarrow> \<exists>d. set_accessor sump c name n outer i = Inr d"
proof -
  assume n: "n < 10000"
  obtain ds where
    "set_defs sump (c_index c) (ast_region (ast_args (c_ast c) ! i))
       (ast_tag (ast_args (c_ast c) ! i)) n outer [0..<n] [] = Inr ds"
    using set_defs_total[OF n] by blast
  then show ?thesis by (simp add: set_accessor_def Let_def)
qed

lemma tuple_accessors_total:
  "length members < 10000 \<Longrightarrow> \<exists>st'. tuple_accessors fe sump c name members is outer st = Inr st'"
proof (induction "is" arbitrary: outer st)
  case Nil
  show ?case by simp
next
  case (Cons i rest)
  obtain ed where ed: "edit_accessor sump c name (length members) outer i = Inr ed"
    using edit_accessor_total[OF Cons.prems] by blast
  obtain sd where sd: "set_accessor sump c name (length members) outer i = Inr sd"
    using set_accessor_total[OF Cons.prems] by blast
  show ?case
    using Cons.IH[OF Cons.prems] by (simp add: Let_def ed sd)
qed


lemma map_of_map_insert:
  "map_of (map_insert k v m) n = (if n = k \<and> map_of m k = None then Some v else map_of m n)"
  by (auto simp: map_insert_def map_of_snoc split: option.splits)

lemma bind_def_symbols:
  "pkg_exports (bind_def d e g st) = pkg_exports (bind_export d e st)"
  "globals (bind_def d e g st) = globals (bind_global d g st)"
  by (simp_all add: bind_def_def Let_def bind_export_def bind_global_def split: option.splits)

lemma bind_def_maps_other:
  assumes "df_name d \<noteq> ''_''" and "df_name d \<noteq> n"
  shows "map_of (file_defs (bind_def d e g st)) n = map_of (file_defs st) n"
    and "map_of (defs (pkg_exports (bind_def d e g st))) n = map_of (defs (pkg_exports st)) n"
    and "map_of (defs (globals (bind_def d e g st))) n = map_of (defs (globals st)) n"
  using assms
  by (simp_all add: bind_def_other_name bind_def_symbols bind_export_def bind_global_def
                    map_of_map_insert)

lemma bind_def_maps_own:
  assumes "df_name d \<noteq> ''_''"
  shows "(map_of (defs (pkg_exports (bind_def d e g st))) (df_name d) \<noteq> None) =
           (e \<or> map_of (defs (pkg_exports st)) (df_name d) \<noteq> None)"
    and "(map_of (defs (globals (bind_def d e g st))) (df_name d) \<noteq> None) =
           (g \<or> map_of (defs (globals st)) (df_name d) \<noteq> None)"
  using assms
  by (auto simp: bind_def_symbols bind_export_def bind_global_def map_of_map_insert)

lemma same_at_refl [simp]: "same_at n st st"
  by (simp add: same_at_def)

lemma same_at_trans: "same_at n a b \<Longrightarrow> same_at n b c \<Longrightarrow> same_at n a c"
  by (simp add: same_at_def)

lemma bind_def_same_at:
  "df_name d \<noteq> ''_'' \<Longrightarrow> df_name d \<noteq> n \<Longrightarrow> same_at n st (bind_def d e g st)"
  by (simp add: same_at_def bind_def_maps_other)

lemma accessor_names_differ:
  "nm \<in> set (accessor_names name t) \<Longrightarrow> t' \<noteq> t \<Longrightarrow> nm' \<in> set (accessor_names name t') \<Longrightarrow> nm' \<noteq> nm"
  by (auto simp: accessor_names_def)

lemma accessor_names_not_wild: "nm \<in> set (accessor_names name t) \<Longrightarrow> nm \<noteq> ''_''"
  by (auto simp: accessor_names_def)

text \<open>One round of the loop for a member with an upper-case tag.\<close>

lemma tuple_accessors_round:
  assumes "tuple_accessors fe sump c name members (j # rest) outer st = Inr st'"
    and "lex_kind fe (ast_tag (ast_args (c_ast c) ! j)) = UPPER"
  obtains ed sd where
    "is_accessor (''edit'' @ name @ ast_tag (ast_args (c_ast c) ! j))
       (ast_region (ast_args (c_ast c) ! j)) ed"
    "is_accessor (''set'' @ name @ ast_tag (ast_args (c_ast c) ! j))
       (ast_region (ast_args (c_ast c) ! j)) sd"
    "tuple_accessors fe sump c name members rest (Suc outer)
       (bind_def sd (exportf (members ! j)) (globalf (members ! j))
          (bind_def ed (exportf (members ! j)) (globalf (members ! j))
             (bind_def (get_accessor sump c name j) (exportf (members ! j)) (globalf (members ! j)) st)))
     = Inr st'"
proof -
  from assms obtain ed sd where
    e: "edit_accessor sump c name (length members) outer j = Inr ed" and
    s: "set_accessor sump c name (length members) outer j = Inr sd" and
    r: "tuple_accessors fe sump c name members rest (Suc outer)
       (bind_def sd (exportf (members ! j)) (globalf (members ! j))
          (bind_def ed (exportf (members ! j)) (globalf (members ! j))
             (bind_def (get_accessor sump c name j) (exportf (members ! j)) (globalf (members ! j)) st)))
     = Inr st'"
    by (auto simp: Let_def split: sum.splits)
  show ?thesis
    using that[OF edit_accessor_is[OF e] set_accessor_is[OF s] r] .
qed

lemma tuple_accessors_same_at:
  assumes "tuple_accessors fe sump c name members is outer st = Inr st'"
    and "\<forall>j\<in>set is. lex_kind fe (ast_tag (ast_args (c_ast c) ! j)) = UPPER \<longrightarrow>
                      ast_tag (ast_args (c_ast c) ! j) \<noteq> t"
    and "nm \<in> set (accessor_names name t)"
  shows "same_at nm st st'"
  using assms
proof (induction "is" arbitrary: outer st)
  case Nil
  then show ?case by simp
next
  case (Cons j rest)
  let ?tj = "ast_tag (ast_args (c_ast c) ! j)"
  show ?case
  proof (cases "lex_kind fe ?tj = UPPER")
    case False
    then have "tuple_accessors fe sump c name members rest outer st = Inr st'"
      using Cons.prems(1) by (simp add: Let_def)
    from Cons.IH[OF this] Cons.prems(2,3) show ?thesis by simp
  next
    case True
    let ?e = "exportf (members ! j)" and ?g = "globalf (members ! j)"
    let ?gd = "get_accessor sump c name j"
    from tuple_accessors_round[OF Cons.prems(1) True] obtain ed sd where
      ed: "is_accessor (''edit'' @ name @ ?tj) (ast_region (ast_args (c_ast c) ! j)) ed" and
      sd: "is_accessor (''set'' @ name @ ?tj) (ast_region (ast_args (c_ast c) ! j)) sd" and
      r: "tuple_accessors fe sump c name members rest (Suc outer)
            (bind_def sd ?e ?g (bind_def ed ?e ?g (bind_def ?gd ?e ?g st))) = Inr st'"
      by blast
    have tj: "?tj \<noteq> t" using Cons.prems(2) True by simp
    have gn: "df_name ?gd = ''get'' @ name @ ?tj"
      using get_accessor_is[of name c j sump] by (simp add: is_accessor_def)
    have en: "df_name ed = ''edit'' @ name @ ?tj" using ed by (simp add: is_accessor_def)
    have sn: "df_name sd = ''set'' @ name @ ?tj" using sd by (simp add: is_accessor_def)
    have d: "df_name ?gd \<noteq> nm" "df_name ed \<noteq> nm" "df_name sd \<noteq> nm"
            "df_name ?gd \<noteq> ''_''" "df_name ed \<noteq> ''_''" "df_name sd \<noteq> ''_''"
      using Cons.prems(3) tj by (auto simp: gn en sn accessor_names_def)
    have "same_at nm st (bind_def sd ?e ?g (bind_def ed ?e ?g (bind_def ?gd ?e ?g st)))"
      using d by (blast intro: same_at_trans bind_def_same_at)
    moreover have "same_at nm (bind_def sd ?e ?g (bind_def ed ?e ?g (bind_def ?gd ?e ?g st))) st'"
      using Cons.IH[OF r] Cons.prems(2,3) by simp
    ultimately show ?thesis by (rule same_at_trans)
  qed
qed


text \<open>The value that \<open>bind_def\<close> stores for a definition.\<close>

lemma bind_def_binds:
  "df_name d \<noteq> ''_'' \<Longrightarrow> map_of (file_defs st) (df_name d) = None \<Longrightarrow>
   map_of (file_defs (bind_def d e g st)) (df_name d) = Some (stored d)"
  by (simp add: bind_def_fresh(1) map_of_snoc stored_def)

text \<open>What the round of member \<open>i\<close> leaves at an accessor name of that member.\<close>

lemma accessor_at_bind:
  assumes "is_accessor nm loc d" and "nm \<noteq> ''_''" and "map_of (file_defs st) nm = None"
  shows "accessor_at nm loc e g st (bind_def d e g st)"
    and "map_of (file_defs (bind_def d e g st)) nm = Some (stored d)"
proof -
  have n: "df_name d = nm" using assms(1) by (simp add: is_accessor_def)
  have dn: "df_name d \<noteq> ''_''" using n assms(2) by simp
  have f: "map_of (file_defs st) (df_name d) = None" using n assms(3) by simp
  show b: "map_of (file_defs (bind_def d e g st)) nm = Some (stored d)"
    using bind_def_binds[OF dn f, of e g] n by simp
  show "accessor_at nm loc e g st (bind_def d e g st)"
    using b bind_def_maps_own[OF dn, of e g st] n assms(1)
    by (simp add: accessor_at_def stored_def is_accessor_def)
qed

lemma accessor_at_before:
  "same_at nm st0 st \<Longrightarrow> accessor_at nm loc e g st st' \<Longrightarrow> accessor_at nm loc e g st0 st'"
  by (simp add: accessor_at_def same_at_def)

lemma accessor_at_after:
  "accessor_at nm loc e g st st' \<Longrightarrow> same_at nm st' st'' \<Longrightarrow> accessor_at nm loc e g st st''"
  by (simp add: accessor_at_def same_at_def)

lemma tuple_accessors_binds:
  assumes "tuple_accessors fe sump c name members is outer st = Inr st'"
    and "i \<in> set is" and "distinct is"
    and "lex_kind fe (ast_tag (ast_args (c_ast c) ! i)) = UPPER"
    and "\<forall>j\<in>set is. j \<noteq> i \<longrightarrow> ast_tag (ast_args (c_ast c) ! j) \<noteq> ast_tag (ast_args (c_ast c) ! i)"
    and "\<forall>nm\<in>set (accessor_names name (ast_tag (ast_args (c_ast c) ! i))).
           map_of (file_defs st) nm = None"
  shows "map_of (file_defs st') (''get'' @ name @ ast_tag (ast_args (c_ast c) ! i)) =
           Some (stored (get_accessor sump c name i)) \<and>
         (\<forall>nm\<in>set (accessor_names name (ast_tag (ast_args (c_ast c) ! i))).
            accessor_at nm (ast_region (ast_args (c_ast c) ! i))
              (exportf (members ! i)) (globalf (members ! i)) st st')"
  using assms
proof (induction "is" arbitrary: outer st)
  case Nil
  then show ?case by simp
next
  case (Cons j rest)
  let ?t = "ast_tag (ast_args (c_ast c) ! i)"
  let ?tj = "ast_tag (ast_args (c_ast c) ! j)"
  let ?loc = "ast_region (ast_args (c_ast c) ! i)"
  show ?case
  proof (cases "j = i")
    case True
    let ?e = "exportf (members ! i)" and ?g = "globalf (members ! i)"
    let ?gd = "get_accessor sump c name i"
    let ?gn = "''get'' @ name @ ?t" and ?en = "''edit'' @ name @ ?t" and ?sn = "''set'' @ name @ ?t"
    from tuple_accessors_round[OF Cons.prems(1)[unfolded True] Cons.prems(4)] obtain ed sd where
      ed: "is_accessor ?en ?loc ed" and sd: "is_accessor ?sn ?loc sd" and
      r: "tuple_accessors fe sump c name members rest (Suc outer)
            (bind_def sd ?e ?g (bind_def ed ?e ?g (bind_def ?gd ?e ?g st))) = Inr st'"
      by blast
    let ?s1 = "bind_def ?gd ?e ?g st"
    let ?s2 = "bind_def ed ?e ?g ?s1"
    let ?s3 = "bind_def sd ?e ?g ?s2"
    have gd: "is_accessor ?gn ?loc ?gd" by (rule get_accessor_is)
    have fresh: "map_of (file_defs st) ?gn = None" "map_of (file_defs st) ?en = None"
                "map_of (file_defs st) ?sn = None"
      using Cons.prems(6) by (simp_all add: accessor_names_def)
    have names: "df_name ?gd = ?gn" "df_name ed = ?en" "df_name sd = ?sn"
      using gd ed sd by (simp_all add: is_accessor_def)
    \<comment> \<open>the get accessor\<close>
    have g1: "accessor_at ?gn ?loc ?e ?g st ?s1" "map_of (file_defs ?s1) ?gn = Some (stored ?gd)"
      using accessor_at_bind[OF gd _ fresh(1)] by simp_all
    have g12: "same_at ?gn ?s1 ?s2" by (rule bind_def_same_at) (simp_all add: names)
    have g23: "same_at ?gn ?s2 ?s3" by (rule bind_def_same_at) (simp_all add: names)
    have g3: "accessor_at ?gn ?loc ?e ?g st ?s3"
      using g1(1) g12 g23 by (blast intro: accessor_at_after)
    have g3v: "map_of (file_defs ?s3) ?gn = Some (stored ?gd)"
      using g1(2) g12 g23 by (simp add: same_at_def)
    \<comment> \<open>the edit accessor\<close>
    have e01: "same_at ?en st ?s1" by (rule bind_def_same_at) (simp_all add: names)
    have e1: "map_of (file_defs ?s1) ?en = None" using e01 fresh(2) by (simp add: same_at_def)
    have e12: "accessor_at ?en ?loc ?e ?g ?s1 ?s2"
      using accessor_at_bind(1)[OF ed _ e1] by simp
    have e23: "same_at ?en ?s2 ?s3" by (rule bind_def_same_at) (simp_all add: names)
    have e3: "accessor_at ?en ?loc ?e ?g st ?s3"
      using e01 e12 e23 by (blast intro: accessor_at_after accessor_at_before)
    \<comment> \<open>the set accessor\<close>
    have s01: "same_at ?sn st ?s1" by (rule bind_def_same_at) (simp_all add: names)
    have s12: "same_at ?sn ?s1 ?s2" by (rule bind_def_same_at) (simp_all add: names)
    have s2: "map_of (file_defs ?s2) ?sn = None" using s01 s12 fresh(3) by (simp add: same_at_def)
    have s23: "accessor_at ?sn ?loc ?e ?g ?s2 ?s3"
      using accessor_at_bind(1)[OF sd _ s2] by simp
    have s3: "accessor_at ?sn ?loc ?e ?g st ?s3"
      using s01 s12 s23 by (blast intro: accessor_at_before same_at_trans)
    \<comment> \<open>the rest of the loop\<close>
    have others: "\<forall>k\<in>set rest. lex_kind fe (ast_tag (ast_args (c_ast c) ! k)) = UPPER \<longrightarrow>
                    ast_tag (ast_args (c_ast c) ! k) \<noteq> ?t"
      using Cons.prems(3,5) True by auto
    have keep: "\<And>nm. nm \<in> set (accessor_names name ?t) \<Longrightarrow> same_at nm ?s3 st'"
      using tuple_accessors_same_at[OF r others] by blast
    have all: "\<forall>nm\<in>set (accessor_names name ?t). accessor_at nm ?loc ?e ?g st ?s3"
      using g3 e3 s3 by (simp add: accessor_names_def)
    have "map_of (file_defs st') ?gn = Some (stored ?gd)"
      using g3v keep[of ?gn] by (simp add: same_at_def accessor_names_def)
    moreover have "\<forall>nm\<in>set (accessor_names name ?t). accessor_at nm ?loc ?e ?g st st'"
      using all keep by (blast intro: accessor_at_after)
    ultimately show ?thesis by simp
  next
    case False
    have irest: "i \<in> set rest" using Cons.prems(2) False by simp
    have drest: "distinct rest" using Cons.prems(3) by simp
    have orest: "\<forall>k\<in>set rest. k \<noteq> i \<longrightarrow> ast_tag (ast_args (c_ast c) ! k) \<noteq> ?t"
      using Cons.prems(5) by simp
    have tj: "?tj \<noteq> ?t" using Cons.prems(5) False by simp
    show ?thesis
    proof (cases "lex_kind fe ?tj = UPPER")
      case nu: False
      then have r: "tuple_accessors fe sump c name members rest outer st = Inr st'"
        using Cons.prems(1) by (simp add: Let_def)
      from Cons.IH[OF r irest drest Cons.prems(4) orest Cons.prems(6)] show ?thesis .
    next
      case up: True
      let ?e = "exportf (members ! j)" and ?g = "globalf (members ! j)"
      let ?gd = "get_accessor sump c name j"
      from tuple_accessors_round[OF Cons.prems(1) up] obtain ed sd where
        ed: "is_accessor (''edit'' @ name @ ?tj) (ast_region (ast_args (c_ast c) ! j)) ed" and
        sd: "is_accessor (''set'' @ name @ ?tj) (ast_region (ast_args (c_ast c) ! j)) sd" and
        r: "tuple_accessors fe sump c name members rest (Suc outer)
              (bind_def sd ?e ?g (bind_def ed ?e ?g (bind_def ?gd ?e ?g st))) = Inr st'"
        by blast
      let ?s3 = "bind_def sd ?e ?g (bind_def ed ?e ?g (bind_def ?gd ?e ?g st))"
      have gn: "df_name ?gd = ''get'' @ name @ ?tj"
        using get_accessor_is[of name c j sump] by (simp add: is_accessor_def)
      have en: "df_name ed = ''edit'' @ name @ ?tj" using ed by (simp add: is_accessor_def)
      have sn: "df_name sd = ''set'' @ name @ ?tj" using sd by (simp add: is_accessor_def)
      have sj: "same_at nm st ?s3" if "nm \<in> set (accessor_names name ?t)" for nm
      proof -
        have d: "df_name ?gd \<noteq> nm" "df_name ed \<noteq> nm" "df_name sd \<noteq> nm"
                "df_name ?gd \<noteq> ''_''" "df_name ed \<noteq> ''_''" "df_name sd \<noteq> ''_''"
          using that tj by (auto simp: gn en sn accessor_names_def)
        then show ?thesis by (blast intro: same_at_trans bind_def_same_at)
      qed
      have fresh1: "\<forall>nm\<in>set (accessor_names name ?t). map_of (file_defs ?s3) nm = None"
        using sj Cons.prems(6) by (simp add: same_at_def)
      note ih = Cons.IH[OF r irest drest Cons.prems(4) orest fresh1]
      have "\<forall>nm\<in>set (accessor_names name ?t).
              accessor_at nm ?loc (exportf (members ! i)) (globalf (members ! i)) st st'"
        using ih sj by (blast intro: accessor_at_before)
      with ih show ?thesis by simp
    qed
  qed
qed


lemma tuple_sum_shape:
  assumes "tuple_sum fe topdef = (fl, sump, members, errs)"
  shows "c_index (last (s_members sump)) = 0"
    and "ast_name (c_ast (last (s_members sump))) = s_name sump"
  using assms
  by (auto simp: tuple_sum_def Let_def addConstructor_def new_Sum_def set_region_def new_AST_def
           split: prod.splits)

lemma constructor_same_at:
  assumes "nm \<in> set (accessor_names T t)" and "df_name d = T"
  shows "same_at nm st (bind_def d e g st)"
proof (cases "T = ''_''")
  case True
  have "nm \<noteq> ''_'' @ to_string (length (file_defs st)) @ '' _''"
    using assms(1) by (auto simp: accessor_names_def)
  then show ?thesis
    using True assms(2)
    by (auto simp: same_at_def bind_def_def Let_def bind_export_def bind_global_def map_of_snoc
             split: option.splits)
next
  case False
  have "length nm > length T" using assms(1) by (auto simp: accessor_names_def)
  then have "T \<noteq> nm" by auto
  then show ?thesis using False assms(2) by (simp add: bind_def_same_at)
qed

lemma bind_type_same_at: "same_at nm st (bind_type n l e g st)"
  by (simp add: same_at_def bind_type_def Let_def split: option.splits)

lemma check_special_same_at: "same_at nm st (check_special s st)"
  by (simp add: same_at_def check_special_def)

lemma parse_tuple_binds:
  assumes "tuple_sum fe topdef = (fl, sump, members, errs)"
    and "length members < 10000"
    and "i < length members"
    and "field = ast_args (c_ast (last (s_members sump))) ! i"
    and "\<forall>j<length members. j \<noteq> i \<longrightarrow>
           ast_tag (ast_args (c_ast (last (s_members sump))) ! j) \<noteq> ast_tag field"
    and "\<forall>nm\<in>set (accessor_names (s_name sump) (ast_tag field)). map_of (file_defs st) nm = None"
  shows "\<exists>st'. parse_tuple fe topdef st = Inr st' \<and>
           (lex_kind fe (ast_tag field) = UPPER \<longrightarrow>
              map_of (file_defs st') (''get'' @ s_name sump @ ast_tag field) =
                Some \<lparr>dv_location = ast_region field,
                      dv_body = Expr (ast_region field) {FLAG_SYNTHETIC}
                                  (Lambda ''_'' (Expr (ast_region field) {} (Get sump 0 i))),
                      dv_typeVars = []\<rparr> \<and>
              (\<forall>nm\<in>set (accessor_names (s_name sump) (ast_tag field)).
                 (\<exists>v. map_of (file_defs st') nm = Some v \<and> dv_location v = ast_region field \<and>
                       FLAG_SYNTHETIC \<in> flags (dv_body v)) \<and>
                 (map_of (defs (pkg_exports st')) nm \<noteq> None) =
                   (exportf (members ! i) \<or> map_of (defs (pkg_exports st)) nm \<noteq> None) \<and>
                 (map_of (defs (globals st')) nm \<noteq> None) =
                   (globalf (members ! i) \<or> map_of (defs (globals st)) nm \<noteq> None))) \<and>
           (lex_kind fe (ast_tag field) \<noteq> UPPER \<longrightarrow>
              (\<forall>nm\<in>set (accessor_names (s_name sump) (ast_tag field)).
                 map_of (file_defs st') nm = None \<and>
                 map_of (defs (pkg_exports st')) nm = map_of (defs (pkg_exports st)) nm \<and>
                 map_of (defs (globals st')) nm = map_of (defs (globals st)) nm))"
proof -
  let ?c = "last (s_members sump)"
  let ?T = "s_name sump"
  let ?t = "ast_tag field"
  let ?st3 = "st\<lparr>reports := reports st @ errs\<rparr>"
  let ?st4 = "bind_type (s_name sump) (s_token sump) (exportf fl) (globalf fl) ?st3"
  let ?construct = "fold (\<lambda>a e. new_Expr (ast_token (c_ast ?c)) (Lambda (ast_tag a) e))
                      (rev (ast_args (c_ast ?c)))
                      (new_Expr (ast_token (c_ast ?c)) (Construct sump (c_index ?c)))"
  let ?cd = "new_Definition (ast_name (c_ast ?c)) (ast_token (c_ast ?c)) ?construct"
  let ?st5 = "bind_def ?cd (exportf fl) (globalf fl) ?st4"
  let ?st6 = "if pkg_name ?st5 = ''wake'' then check_special sump ?st5 else ?st5"
  have p: "parse_tuple fe topdef st =
             tuple_accessors fe sump ?c ?T members [0..<length members] 0 ?st6"
    by (simp add: parse_tuple_def assms(1) Let_def)
  obtain st' where st': "tuple_accessors fe sump ?c ?T members [0..<length members] 0 ?st6 = Inr st'"
    using tuple_accessors_total[OF assms(2)] by blast
  have cn: "df_name ?cd = ?T"
    using tuple_sum_shape(2)[OF assms(1)] by (simp add: new_Definition_def)
  have pre: "same_at nm st ?st6" if "nm \<in> set (accessor_names ?T ?t)" for nm
  proof -
    have "same_at nm st ?st3" by (simp add: same_at_def)
    moreover have "same_at nm ?st3 ?st4" by (rule bind_type_same_at)
    moreover have "same_at nm ?st4 ?st5" by (rule constructor_same_at[OF that cn])
    moreover have "same_at nm ?st5 ?st6" by (simp add: check_special_same_at)
    ultimately show ?thesis by (blast intro: same_at_trans)
  qed
  have fresh6: "\<forall>nm\<in>set (accessor_names ?T ?t). map_of (file_defs ?st6) nm = None"
    using pre assms(6) by (simp add: same_at_def)
  have upper: ?thesis if up: "lex_kind fe ?t = UPPER"
  proof -
    have a: "i \<in> set [0..<length members]" "distinct [0..<length members]"
      using assms(3) by simp_all
    have up': "lex_kind fe (ast_tag (ast_args (c_ast ?c) ! i)) = UPPER"
      using up assms(4) by simp
    have o: "\<forall>j\<in>set [0..<length members]. j \<noteq> i \<longrightarrow>
               ast_tag (ast_args (c_ast ?c) ! j) \<noteq> ast_tag (ast_args (c_ast ?c) ! i)"
      using assms(4,5) by simp
    have f: "\<forall>nm\<in>set (accessor_names ?T (ast_tag (ast_args (c_ast ?c) ! i))).
               map_of (file_defs ?st6) nm = None"
      using fresh6 assms(4) by simp
    note b = tuple_accessors_binds[OF st' a up' o f]
    have g: "map_of (file_defs st') (''get'' @ ?T @ ?t) =
               Some \<lparr>dv_location = ast_region field,
                     dv_body = Expr (ast_region field) {FLAG_SYNTHETIC}
                                 (Lambda ''_'' (Expr (ast_region field) {} (Get sump 0 i))),
                     dv_typeVars = []\<rparr>"
      using b assms(4) tuple_sum_shape(1)[OF assms(1)] get_accessor_is[of ?T ?c i sump]
      by (simp add: stored_def get_accessor_body is_accessor_def)
    have "\<forall>nm\<in>set (accessor_names ?T ?t).
            accessor_at nm (ast_region field) (exportf (members ! i)) (globalf (members ! i)) st st'"
      using b pre assms(4) by (auto intro: accessor_at_before)
    then show ?thesis
      using g st' up unfolding p by (auto simp: accessor_at_def)
  qed
  have lower: ?thesis if nu: "lex_kind fe ?t \<noteq> UPPER"
  proof -
    have o: "\<forall>j\<in>set [0..<length members].
               lex_kind fe (ast_tag (ast_args (c_ast ?c) ! j)) = UPPER \<longrightarrow>
               ast_tag (ast_args (c_ast ?c) ! j) \<noteq> ?t"
      using assms(4,5) nu by auto
    have "\<forall>nm\<in>set (accessor_names ?T ?t). same_at nm st st'"
      using tuple_accessors_same_at[OF st' o] pre by (blast intro: same_at_trans)
    then show ?thesis
      using st' nu assms(6) unfolding p by (auto simp: same_at_def)
  qed
  from upper lower show ?thesis by blast
qed


theorem parse_tuple_lower_counterexample:
  "map_sum id bound_names (parse_tuple ascii_frontend lower_tuple dst_init) = Inr [''Point'']"
  by code_simp

lemma tuple_elements_members:
  "fst (tuple_elements fe child acc) =
     fst acc @ map (\<lambda>m. \<lparr>exportf = marked_export m, globalf = marked_global m\<rparr>) (siblings child) \<and>
   fst (snd (tuple_elements fe child acc)) =
     fst (snd acc) @ map (member_type fe) (siblings child)"
proof (induction fe child acc rule: tuple_elements.induct)
  case (1 fe child acc)
  show ?case
  proof (cases "elt_empty child")
    case True
    then show ?thesis
      by (simp add: tuple_elements.simps[of fe child acc] siblings_empty)
  next
    case False
    let ?fl = "\<lparr>exportf = marked_export child, globalf = marked_global child\<rparr>"
    let ?t = "parse_type fe (declared child)"
    let ?acc = "(fst acc @ [?fl], fst (snd acc) @ [fst ?t], snd (snd acc) @ snd ?t)"
    have u: "tuple_elements fe child acc = tuple_elements fe (nextSiblingNode child) ?acc"
      using False
      by (simp add: tuple_elements.simps[of fe child acc] parse_flags_marked Let_def)
    from "1.IH"[OF False parse_flags_marked[symmetric] refl] show ?thesis
      unfolding u by (simp add: siblings_step[OF False] member_type_def)
  qed
qed

lemma tuple_sum_declared:
  "tuple_sum fe topdef =
     (\<lparr>exportf = marked_export topdef, globalf = marked_global topdef\<rparr>,
      declared_tuple fe topdef,
      map (\<lambda>m. \<lparr>exportf = marked_export m, globalf = marked_global m\<rparr>) (clauses topdef),
      snd (snd (snd (tuple_sum fe topdef))))"
proof -
  let ?child = "declared topdef"
  let ?r = "tuple_elements fe (nextSiblingNode ?child) ([], [], [])"
  have m: "fst ?r = map (\<lambda>m. \<lparr>exportf = marked_export m, globalf = marked_global m\<rparr>) (clauses topdef)"
    and a: "fst (snd ?r) = map (member_type fe) (clauses topdef)"
    using tuple_elements_members[of fe "nextSiblingNode ?child" "([], [], [])"]
    by (simp_all add: clauses_def)
  obtain ms as es where r: "?r = (ms, as, es)" by (cases ?r) auto
  show ?thesis
    using m a unfolding r
    by (simp add: tuple_sum_def parse_flags_marked Let_def r declared_tuple_def new_Sum_def
                  addConstructor_def set_region_def new_AST_def)
qed


text \<open>
  C1 (as amended). Take the member at position \<open>i\<close> of a \<open>tuple\<close> declaration \<open>T\<close>
  of fewer than 10000 members, whose tag \<open>F\<close> is the tag of no other member, the names
  \<open>getTF\<close>, \<open>editTF\<close> and \<open>setTF\<close> being unbound in the file's definitions before
  the declaration. Then \<open>parse_tuple\<close> returns. When \<open>F\<close> is an upper-case
  identifier, the file's definitions map \<open>getTF\<close> to \<open>\_. Get(Sum, Ctor, i)\<close> with
  \<open>FLAG_SYNTHETIC\<close>, where the sum is the sum of the declaration and the constructor
  its only one; they hold \<open>editTF\<close> and \<open>setTF\<close> with \<open>FLAG_SYNTHETIC\<close> too, all
  three at the location of the member; and each of the three names is among the
  exports (the globals) exactly when the member itself has the flag \<open>export\<close>
  (\<open>global\<close>) in the tree or the name was there before, whatever the flags of the
  tuple. When \<open>F\<close> is not upper-case, the member gets no accessor.
\<close>

theorem parse_tuple_accessors:
  assumes "length (clauses topdef) < 10000"
    and "i < length (clauses topdef)"
    and "field = member_type fe (clauses topdef ! i)"
    and "T = ast_name (fst (parse_type fe (declared topdef)))"
    and "\<forall>j<length (clauses topdef). j \<noteq> i \<longrightarrow>
           ast_tag (member_type fe (clauses topdef ! j)) \<noteq> ast_tag field"
    and "\<forall>nm\<in>set (accessor_names T (ast_tag field)). map_of (file_defs st) nm = None"
  shows "\<exists>st'. parse_tuple fe topdef st = Inr st' \<and>
           (lex_kind fe (ast_tag field) = UPPER \<longrightarrow>
              map_of (file_defs st') (''get'' @ T @ ast_tag field) =
                Some \<lparr>dv_location = ast_region field,
                      dv_body = Expr (ast_region field) {FLAG_SYNTHETIC}
                                  (Lambda ''_''
                                     (Expr (ast_region field) {}
                                        (Get (declared_tuple fe topdef) 0 i))),
                      dv_typeVars = []\<rparr> \<and>
              (\<forall>nm\<in>set (accessor_names T (ast_tag field)).
                 (\<exists>v. map_of (file_defs st') nm = Some v \<and> dv_location v = ast_region field \<and>
                       FLAG_SYNTHETIC \<in> flags (dv_body v)) \<and>
                 (map_of (defs (pkg_exports st')) nm \<noteq> None) =
                   (marked_export (clauses topdef ! i) \<or> map_of (defs (pkg_exports st)) nm \<noteq> None) \<and>
                 (map_of (defs (globals st')) nm \<noteq> None) =
                   (marked_global (clauses topdef ! i) \<or> map_of (defs (globals st)) nm \<noteq> None))) \<and>
           (lex_kind fe (ast_tag field) \<noteq> UPPER \<longrightarrow>
              (\<forall>nm\<in>set (accessor_names T (ast_tag field)).
                 map_of (file_defs st') nm = None \<and>
                 map_of (defs (pkg_exports st')) nm = map_of (defs (pkg_exports st)) nm \<and>
                 map_of (defs (globals st')) nm = map_of (defs (globals st)) nm))"
proof -
  let ?sump = "declared_tuple fe topdef"
  let ?members = "map (\<lambda>m. \<lparr>exportf = marked_export m, globalf = marked_global m\<rparr>) (clauses topdef)"
  have args: "ast_args (c_ast (last (s_members ?sump))) = map (member_type fe) (clauses topdef)"
    and nm: "s_name ?sump = T"
    using assms(4) by (simp_all add: declared_tuple_def)
  have l1: "length ?members < 10000" and l2: "i < length ?members"
    using assms(1,2) by simp_all
  have f: "field = ast_args (c_ast (last (s_members ?sump))) ! i"
    using assms(2,3) args by simp
  have o: "\<forall>j<length ?members. j \<noteq> i \<longrightarrow>
             ast_tag (ast_args (c_ast (last (s_members ?sump))) ! j) \<noteq> ast_tag field"
    using assms(5) args by simp
  have u: "\<forall>nm\<in>set (accessor_names (s_name ?sump) (ast_tag field)). map_of (file_defs st) nm = None"
    using assms(6) nm by simp
  have fl: "exportf (?members ! i) = marked_export (clauses topdef ! i)"
           "globalf (?members ! i) = marked_global (clauses topdef ! i)"
    using assms(2) by simp_all
  from parse_tuple_binds[OF tuple_sum_declared l1 l2 f o u] show ?thesis
    unfolding nm fl .
qed

theorem parse_tuple_accessors_witness:
  "\<exists>st'. parse_tuple ascii_frontend flagged_tuple dst_init = Inr st' \<and>
         map_of (file_defs st') ''getPointY'' =
           Some \<lparr>dv_location = at 34 44,
                 dv_body = Expr (at 34 44) {FLAG_SYNTHETIC}
                             (Lambda ''_''
                                (Expr (at 34 44) {}
                                   (Get (declared_tuple ascii_frontend flagged_tuple) 0 1))),
                 dv_typeVars = []\<rparr> \<and>
         (\<forall>nm\<in>set [''getPointY'', ''editPointY'', ''setPointY''].
            (\<exists>v. map_of (file_defs st') nm = Some v \<and> FLAG_SYNTHETIC \<in> flags (dv_body v)) \<and>
            map_of (defs (pkg_exports st')) nm \<noteq> None \<and>
            map_of (defs (globals st')) nm = None) \<and>
         (\<forall>nm\<in>set [''getPointX'', ''editPointX'', ''setPointX''].
            (\<exists>v. map_of (file_defs st') nm = Some v \<and> FLAG_SYNTHETIC \<in> flags (dv_body v)) \<and>
            map_of (defs (pkg_exports st')) nm = None)"
proof -
  let ?x = "member_type ascii_frontend (clauses flagged_tuple ! 0)"
  let ?y = "member_type ascii_frontend (clauses flagged_tuple ! Suc 0)"
  let ?T = "ast_name (fst (parse_type ascii_frontend (declared flagged_tuple)))"
  have len: "length (clauses flagged_tuple) = 2" by code_simp
  have l1: "length (clauses flagged_tuple) < 10000" using len by simp
  have l2: "Suc 0 < length (clauses flagged_tuple)" "0 < length (clauses flagged_tuple)"
    using len by simp_all
  have fy: "ast_tag ?y = ''Y''" "ast_region ?y = at 34 44" by code_simp+
  have fx: "ast_tag ?x = ''X''" by code_simp
  have T: "?T = ''Point''" by code_simp
  have up: "lex_kind ascii_frontend ''Y'' = UPPER" "lex_kind ascii_frontend ''X'' = UPPER"
    by code_simp+
  have my: "marked_export (clauses flagged_tuple ! Suc 0)"
           "\<not> marked_global (clauses flagged_tuple ! Suc 0)"
    by code_simp+
  have mx: "\<not> marked_export (clauses flagged_tuple ! 0)" by code_simp
  have oy: "\<forall>j<length (clauses flagged_tuple). j \<noteq> Suc 0 \<longrightarrow>
              ast_tag (member_type ascii_frontend (clauses flagged_tuple ! j)) \<noteq> ast_tag ?y"
    using fx by (auto simp: len fy less_Suc_eq numeral_2_eq_2)
  have ox: "\<forall>j<length (clauses flagged_tuple). j \<noteq> 0 \<longrightarrow>
              ast_tag (member_type ascii_frontend (clauses flagged_tuple ! j)) \<noteq> ast_tag ?x"
    using fy by (auto simp: len fx less_Suc_eq numeral_2_eq_2)
  have f: "\<forall>nm\<in>set (accessor_names ?T t). map_of (file_defs dst_init) nm = None" for t
    by simp
  have e: "map_of (defs (pkg_exports dst_init)) nm = None" "map_of (defs (globals dst_init)) nm = None"
    for nm by (simp_all add: dst_init_def no_symbols_def)
  have ny: "accessor_names ''Point'' ''Y'' = [''getPointY'', ''editPointY'', ''setPointY'']"
    and nx: "accessor_names ''Point'' ''X'' = [''getPointX'', ''editPointX'', ''setPointX'']"
    by (simp_all add: accessor_names_def)
  obtain s1 where s1: "parse_tuple ascii_frontend flagged_tuple dst_init = Inr s1"
    and gy: "map_of (file_defs s1) (''get'' @ ''Point'' @ ''Y'') =
               Some \<lparr>dv_location = at 34 44,
                     dv_body = Expr (at 34 44) {FLAG_SYNTHETIC}
                                 (Lambda ''_''
                                    (Expr (at 34 44) {}
                                       (Get (declared_tuple ascii_frontend flagged_tuple) 0 (Suc 0)))),
                     dv_typeVars = []\<rparr>"
    and ay: "\<forall>nm\<in>set [''getPointY'', ''editPointY'', ''setPointY''].
               (\<exists>v. map_of (file_defs s1) nm = Some v \<and> dv_location v = at 34 44 \<and>
                     FLAG_SYNTHETIC \<in> flags (dv_body v)) \<and>
               (map_of (defs (pkg_exports s1)) nm \<noteq> None) = True \<and>
               (map_of (defs (globals s1)) nm \<noteq> None) = False"
    using parse_tuple_accessors[OF l1 l2(1) refl refl oy f] up my
    by (auto simp: fy T ny e)
  obtain s2 where s2: "parse_tuple ascii_frontend flagged_tuple dst_init = Inr s2"
    and ax: "\<forall>nm\<in>set [''getPointX'', ''editPointX'', ''setPointX''].
               (\<exists>v. map_of (file_defs s2) nm = Some v \<and>
                     dv_location v = ast_region ?x \<and>
                     FLAG_SYNTHETIC \<in> flags (dv_body v)) \<and>
               (map_of (defs (pkg_exports s2)) nm \<noteq> None) = False \<and>
               (map_of (defs (globals s2)) nm \<noteq> None) =
                 marked_global (clauses flagged_tuple ! 0)"
    using parse_tuple_accessors[OF l1 l2(2) refl refl ox f] up mx
    by (auto simp: fx T nx e)
  have eq: "s2 = s1" using s1 s2 by simp
  show ?thesis
    using s1 gy ay ax unfolding eq by auto
qed

end
